theory Spec2Isabelle
  imports Complex_Main "HOL-Library.Sublist"
begin

section \<open>Strings and JSON values of the host language\<close>

text \<open>
  A string of the program is a sequence of UTF-16 code units. Code units are natural
  numbers here, because the parser looks at code units above 255 (the curly quotes).
\<close>

type_synonym jstr = "nat list"

definition js :: "string \<Rightarrow> jstr" where
  "js s = map of_char s"

text \<open>The white space and line terminators that \<open>String.prototype.trim\<close> removes.\<close>

definition isWhiteSpace :: "nat \<Rightarrow> bool" where
  "isWhiteSpace c =
     (c = 9 \<or> c = 10 \<or> c = 11 \<or> c = 12 \<or> c = 13 \<or> c = 32 \<or> c = 160 \<or> c = 5760
      \<or> (8192 \<le> c \<and> c \<le> 8202) \<or> c = 8232 \<or> c = 8233 \<or> c = 8239 \<or> c = 8287
      \<or> c = 12288 \<or> c = 65279)"

definition trim :: "jstr \<Rightarrow> jstr" where
  "trim s = rev (dropWhile isWhiteSpace (rev (dropWhile isWhiteSpace s)))"

definition startsWith :: "jstr \<Rightarrow> jstr \<Rightarrow> bool" where
  "startsWith s p = (take (length p) s = p)"

definition endsWith :: "jstr \<Rightarrow> jstr \<Rightarrow> bool" where
  "endsWith s p = (length p \<le> length s \<and> drop (length s - length p) s = p)"

text \<open>\<open>s.includes(p)\<close>: \<open>p\<close> occurs in \<open>s\<close> as a contiguous run.\<close>

fun includes_str :: "jstr \<Rightarrow> jstr \<Rightarrow> bool" where
  "includes_str [] p = (p = [])"
| "includes_str (c # s) p = (startsWith (c # s) p \<or> includes_str s p)"

text \<open>\<open>s.indexOf(c)\<close> for a single code unit; \<open>None\<close> is the source's \<open>-1\<close>.\<close>

fun indexOf :: "jstr \<Rightarrow> nat \<Rightarrow> nat option" where
  "indexOf [] c = None"
| "indexOf (x # s) c = (if x = c then Some 0 else map_option Suc (indexOf s c))"

text \<open>
  A number that \<open>JSON.parse\<close> can return: a finite value, or an infinity when the literal
  overflows. The program only compares numbers and tests them for zero, which is exact
  on the values of doubles.
\<close>

datatype jsnum = Finite rat | PosInf | NegInf

datatype json =
    JNull
  | JBool bool
  | JNum jsnum
  | JStr jstr
  | JArr "json list"
  | JObj "(jstr \<times> json) list"

section \<open>The parser (ai-client.ts)\<close>

text \<open>
  \<open>findFirstOf(s, chars)\<close>: the least index at which one of \<open>chars\<close> occurs, \<open>None\<close> for
  \<open>-1\<close>. The accumulator is the source's \<open>min\<close>.
\<close>

fun findFirstOf_loop :: "jstr \<Rightarrow> nat list \<Rightarrow> nat option \<Rightarrow> nat option" where
  "findFirstOf_loop s [] mn = mn"
| "findFirstOf_loop s (c # cs) mn =
     (case indexOf s c of
        None \<Rightarrow> findFirstOf_loop s cs mn
      | Some idx \<Rightarrow>
          (case mn of
             None \<Rightarrow> findFirstOf_loop s cs (Some idx)
           | Some m \<Rightarrow> findFirstOf_loop s cs (if idx < m then Some idx else Some m)))"

definition findFirstOf :: "jstr \<Rightarrow> nat list \<Rightarrow> nat option" where
  "findFirstOf s chars = findFirstOf_loop s chars None"

text \<open>
  The scanning loop of \<open>extractFirstJsonBlock\<close>, from index \<open>i\<close> over the rest of the
  text: \<open>Some i\<close> is the index at which the depth returns to zero, \<open>None\<close> when the text
  ends first. 92 is the backslash, 34 the double quote.
\<close>

fun scanBlock :: "nat \<Rightarrow> nat \<Rightarrow> jstr \<Rightarrow> nat \<Rightarrow> int \<Rightarrow> bool \<Rightarrow> bool \<Rightarrow> nat option" where
  "scanBlock openChar closeChar [] i depth inString escape = None"
| "scanBlock openChar closeChar (ch # rest) i depth inString escape =
     (if inString then
        (if escape then scanBlock openChar closeChar rest (i + 1) depth True False
         else if ch = 92 then scanBlock openChar closeChar rest (i + 1) depth True True
         else if ch = 34 then scanBlock openChar closeChar rest (i + 1) depth False escape
         else scanBlock openChar closeChar rest (i + 1) depth True escape)
      else if ch = 34 then scanBlock openChar closeChar rest (i + 1) depth True escape
      else
        (let d1 = (if ch = openChar then depth + 1 else depth);
             d2 = (if ch = closeChar then d1 - 1 else d1)
         in if d2 = 0 then Some i
            else scanBlock openChar closeChar rest (i + 1) d2 inString escape))"

text \<open>123 and 125 are the braces, 91 and 93 the square brackets.\<close>

definition extractFirstJsonBlock :: "jstr \<Rightarrow> jstr option" where
  "extractFirstJsonBlock s =
     (case findFirstOf s [123, 91] of
        None \<Rightarrow> None
      | Some startIdx \<Rightarrow>
          (let openChar = s ! startIdx;
               closeChar = (if openChar = 123 then 125 else 93)
           in case scanBlock openChar closeChar (drop startIdx s) startIdx 0 False False of
                None \<Rightarrow> None
              | Some i \<Rightarrow> Some (trim (take (i + 1 - startIdx) (drop startIdx s)))))"

text \<open>
  \<open>normalizeQuotes\<close>: U+201C to U+201F become the double quote, then U+2018 to U+201B
  the apostrophe.
\<close>

definition normalizeQuotes :: "jstr \<Rightarrow> jstr" where
  "normalizeQuotes s =
     map (\<lambda>c. if c = 8216 \<or> c = 8217 \<or> c = 8218 \<or> c = 8219 then 39 else c)
       (map (\<lambda>c. if c = 8220 \<or> c = 8221 \<or> c = 8222 \<or> c = 8223 then 34 else c) s)"

text \<open>The fence removal at the head of \<open>parseJSONResponse\<close>; 96 is the backtick.\<close>

definition fence :: jstr where
  "fence = [96, 96, 96]"

definition stripFences :: "jstr \<Rightarrow> jstr" where
  "stripFences response =
     (let cleaned = trim response;
          cleaned = (if startsWith cleaned (fence @ js ''json'') then drop 7 cleaned
                     else if startsWith cleaned fence then drop 3 cleaned
                     else cleaned);
          cleaned = (if endsWith cleaned fence then take (length cleaned - 3) cleaned
                     else cleaned)
      in trim cleaned)"

text \<open>
  \<open>parseJSONResponse\<close>. The built-in \<open>JSON.parse\<close> is a parameter: \<open>Inr v\<close> when it
  returns \<open>v\<close>, \<open>Inl m\<close> when it throws, \<open>m\<close> being the text of the exception.
\<close>

definition parseJSONResponse :: "(jstr \<Rightarrow> jstr + json) \<Rightarrow> jstr \<Rightarrow> jstr + json" where
  "parseJSONResponse JSON_parse response =
     (let cleaned = stripFences response
      in case JSON_parse cleaned of
           Inr v \<Rightarrow> Inr v
         | Inl _ \<Rightarrow>
             (case extractFirstJsonBlock cleaned of
                Some extracted \<Rightarrow>
                  (case JSON_parse extracted of
                     Inr v \<Rightarrow> Inr v
                   | Inl _ \<Rightarrow> JSON_parse (normalizeQuotes extracted))
              | None \<Rightarrow> JSON_parse (normalizeQuotes cleaned)))"

text \<open>
  The specification's wording of the same algorithm, written without the code's
  functions. Its first step removes one fenced-code wrapper: an opening fence, with the
  language tag \<open>json\<close> if there is one, at the head of the trimmed text, and a closing
  fence at its end.
\<close>

definition spec_unfence :: "jstr \<Rightarrow> jstr" where
  "spec_unfence response =
     (let t = trim response;
          opened = (if prefix (fence @ js ''json'') t then drop (length (fence @ js ''json'')) t
                    else if prefix fence t then drop (length fence) t
                    else t);
          closed = (if suffix fence opened then take (length opened - length fence) opened else opened)
      in trim closed)"

text \<open>
  Its quote normalisation replaces each Unicode smart quote by the straight quote of
  its kind.
\<close>

definition smart_double_quotes :: "nat list" where
  "smart_double_quotes = [8220, 8221, 8222, 8223]"

definition smart_single_quotes :: "nat list" where
  "smart_single_quotes = [8216, 8217, 8218, 8219]"

definition straighten :: "nat \<Rightarrow> nat" where
  "straighten c =
     (if c \<in> set smart_double_quotes then 34 else if c \<in> set smart_single_quotes then 39 else c)"

definition spec_normalize :: "jstr \<Rightarrow> jstr" where
  "spec_normalize t = map straighten t"

text \<open>
  Its span is found by one pass with a depth counter, from the first brace or square
  bracket of the text: the scanner is outside a string, inside one, or just after a
  backslash inside one, and only outside a string do the bracket of the opening kind
  and its closing bracket count. The result is the number of code units up to the one
  at which the depth returns to zero.
\<close>

datatype scan_mode = Plain | Quoted | Escaped

fun spec_span_length :: "nat \<Rightarrow> nat \<Rightarrow> scan_mode \<Rightarrow> int \<Rightarrow> jstr \<Rightarrow> nat option" where
  "spec_span_length opn cls mode depth [] = None"
| "spec_span_length opn cls Escaped depth (c # cs) =
     map_option Suc (spec_span_length opn cls Quoted depth cs)"
| "spec_span_length opn cls Quoted depth (c # cs) =
     map_option Suc
       (spec_span_length opn cls (if c = 92 then Escaped else if c = 34 then Plain else Quoted) depth cs)"
| "spec_span_length opn cls Plain depth (c # cs) =
     (if c = 34 then map_option Suc (spec_span_length opn cls Quoted depth cs)
      else
        (let depth' = depth + (if c = opn then 1 else 0) - (if c = cls then 1 else 0)
         in if depth' = 0 then Some 1
            else map_option Suc (spec_span_length opn cls Plain depth' cs)))"

definition spec_first_span :: "jstr \<Rightarrow> jstr option" where
  "spec_first_span t =
     (case dropWhile (\<lambda>c. c \<noteq> 123 \<and> c \<noteq> 91) t of
        [] \<Rightarrow> None
      | opn # rest \<Rightarrow>
          map_option (\<lambda>n. trim (take n (opn # rest)))
            (spec_span_length opn (if opn = 123 then 125 else 93) Plain 0 (opn # rest)))"

text \<open>
  The texts to try, in order: the cleaned text; then the span and its normalisation,
  or, when there is no span, the normalisation of the cleaned text. The first success
  wins, and the failure is that of the last text tried.
\<close>

definition spec_parse_attempts :: "jstr \<Rightarrow> jstr list" where
  "spec_parse_attempts response =
     (let cleaned = spec_unfence response
      in cleaned #
         (case spec_first_span cleaned of
            Some blk \<Rightarrow> [blk, spec_normalize blk]
          | None \<Rightarrow> [spec_normalize cleaned]))"

fun first_success :: "(jstr \<Rightarrow> jstr + json) \<Rightarrow> jstr \<Rightarrow> jstr list \<Rightarrow> jstr + json" where
  "first_success JSON_parse t [] = JSON_parse t"
| "first_success JSON_parse t (u # us) =
     (case JSON_parse t of Inr v \<Rightarrow> Inr v | Inl _ \<Rightarrow> first_success JSON_parse u us)"

definition spec_parse :: "(jstr \<Rightarrow> jstr + json) \<Rightarrow> jstr \<Rightarrow> jstr + json" where
  "spec_parse JSON_parse response =
     (case spec_parse_attempts response of
        [] \<Rightarrow> Inl []
      | t # ts \<Rightarrow> first_success JSON_parse t ts)"

text \<open>
  A reader for a fragment of the JSON grammar, to run the parser on concrete texts:
  objects, arrays, strings with the single-character escapes, integers without
  fraction or exponent, the three literals, and the four white-space characters of
  JSON. It rejects every text outside the fragment. For a repeated member name the
  last value is kept, at the position of the first, as the built-in does.
\<close>

definition skip_ws :: "jstr \<Rightarrow> jstr" where
  "skip_ws s = dropWhile (\<lambda>c. c = 32 \<or> c = 9 \<or> c = 10 \<or> c = 13) s"

definition unescape :: "nat \<Rightarrow> nat option" where
  "unescape e =
     (if e = 34 \<or> e = 92 \<or> e = 47 then Some e
      else if e = 98 then Some 8
      else if e = 102 then Some 12
      else if e = 110 then Some 10
      else if e = 114 then Some 13
      else if e = 116 then Some 9
      else None)"

fun read_string :: "jstr \<Rightarrow> (jstr \<times> jstr) option" where
  "read_string [] = None"
| "read_string [c] = (if c = 34 then Some ([], []) else None)"
| "read_string (c # e # cs) =
     (if c = 34 then Some ([], e # cs)
      else if c = 92 then
        (case unescape e of
           None \<Rightarrow> None
         | Some u \<Rightarrow> map_option (\<lambda>(t, r). (u # t, r)) (read_string cs))
      else if c < 32 then None
      else map_option (\<lambda>(t, r). (c # t, r)) (read_string (e # cs)))"

definition isDigit :: "nat \<Rightarrow> bool" where
  "isDigit c = (48 \<le> c \<and> c \<le> 57)"

definition digits_value :: "jstr \<Rightarrow> nat" where
  "digits_value ds = foldl (\<lambda>n d. 10 * n + (d - 48)) 0 ds"

definition read_unsigned :: "jstr \<Rightarrow> (nat \<times> jstr) option" where
  "read_unsigned s =
     (let ds = takeWhile isDigit s; r = dropWhile isDigit s
      in if ds = [] \<or> (length ds > 1 \<and> hd ds = 48) then None
         else (case r of
                 [] \<Rightarrow> Some (digits_value ds, r)
               | c # _ \<Rightarrow> if c = 46 \<or> c = 101 \<or> c = 69 then None
                          else Some (digits_value ds, r)))"

definition read_number :: "jstr \<Rightarrow> (json \<times> jstr) option" where
  "read_number s =
     (case s of
        [] \<Rightarrow> None
      | c # cs \<Rightarrow>
          if c = 45 then
            map_option (\<lambda>(n, r). (JNum (Finite (- of_nat n)), r)) (read_unsigned cs)
          else map_option (\<lambda>(n, r). (JNum (Finite (of_nat n)), r)) (read_unsigned s))"

fun obj_put :: "jstr \<Rightarrow> json \<Rightarrow> (jstr \<times> json) list \<Rightarrow> (jstr \<times> json) list" where
  "obj_put k v [] = [(k, v)]"
| "obj_put k v ((k', v') # m) = (if k' = k then (k', v) # m else (k', v') # obj_put k v m)"

text \<open>
  The reader recurses on a first argument that only bounds the number of calls: the
  calls on a text are fewer than twice its length plus two.
\<close>

fun read_value :: "unit list \<Rightarrow> jstr \<Rightarrow> (json \<times> jstr) option"
  and read_elems :: "unit list \<Rightarrow> jstr \<Rightarrow> json list \<Rightarrow> (json \<times> jstr) option"
  and read_members :: "unit list \<Rightarrow> jstr \<Rightarrow> (jstr \<times> json) list \<Rightarrow> (json \<times> jstr) option"
where
  "read_value [] s = None"
| "read_value (u # n) s =
     (case skip_ws s of
        [] \<Rightarrow> None
      | c # cs \<Rightarrow>
          if c = 123 then
            (case skip_ws cs of
               [] \<Rightarrow> None
             | d # r \<Rightarrow> if d = 125 then Some (JObj [], r) else read_members n cs [])
          else if c = 91 then
            (case skip_ws cs of
               [] \<Rightarrow> None
             | d # r \<Rightarrow> if d = 93 then Some (JArr [], r) else read_elems n cs [])
          else if c = 34 then map_option (\<lambda>(t, r). (JStr t, r)) (read_string cs)
          else if startsWith (c # cs) (js ''true'') then Some (JBool True, drop 4 (c # cs))
          else if startsWith (c # cs) (js ''false'') then Some (JBool False, drop 5 (c # cs))
          else if startsWith (c # cs) (js ''null'') then Some (JNull, drop 4 (c # cs))
          else read_number (c # cs))"
| "read_elems [] s acc = None"
| "read_elems (u # n) s acc =
     (case read_value n s of
        None \<Rightarrow> None
      | Some (v, r) \<Rightarrow>
          (case skip_ws r of
             [] \<Rightarrow> None
           | d # r' \<Rightarrow>
               if d = 44 then read_elems n r' (acc @ [v])
               else if d = 93 then Some (JArr (acc @ [v]), r')
               else None))"
| "read_members [] s acc = None"
| "read_members (u # n) s acc =
     (case skip_ws s of
        [] \<Rightarrow> None
      | q # cs \<Rightarrow>
          if q \<noteq> 34 then None
          else
            (case read_string cs of
               None \<Rightarrow> None
             | Some (k, r) \<Rightarrow>
                 (case skip_ws r of
                    [] \<Rightarrow> None
                  | colon # r1 \<Rightarrow>
                      if colon \<noteq> 58 then None
                      else
                        (case read_value n r1 of
                           None \<Rightarrow> None
                         | Some (v, r2) \<Rightarrow>
                             (case skip_ws r2 of
                                [] \<Rightarrow> None
                              | d # r3 \<Rightarrow>
                                  if d = 44 then read_members n r3 (obj_put k v acc)
                                  else if d = 125 then Some (JObj (obj_put k v acc), r3)
                                  else None)))))"

definition JSON_parse_ref :: "jstr \<Rightarrow> jstr + json" where
  "JSON_parse_ref s =
     (case read_value (map (\<lambda>_. ()) (s @ s @ [0, 0])) s of
        None \<Rightarrow> Inl (js ''SyntaxError'')
      | Some (v, r) \<Rightarrow> if skip_ws r = [] then Inr v else Inl (js ''SyntaxError''))"

text \<open>
  The two texts of the specification's examples: a reply with a sentence before a
  fenced block (10 is the line feed), and an object wrapped in curly quotes.
\<close>

definition example_fenced :: jstr where
  \<open>example_fenced = js ''Sure! '' @ fence @ js ''json'' @ [10] @ js ''{"a":1}'' @ [10] @ fence\<close>

definition example_curly :: jstr where
  \<open>example_curly = [8220] @ js ''{"a":1}'' @ [8221]\<close>

text \<open>
  Texts that only one step of the algorithm recovers: a fenced number, which has no
  span to fall back on; an object whose member name is in curly quotes; a text in curly
  quotes with no bracket at all. And a text whose string value holds a closing brace and
  an escaped double quote (92 is the backslash).
\<close>

definition example_fenced_number :: jstr where
  "example_fenced_number = fence @ js ''json'' @ [10] @ js ''7'' @ [10] @ fence"

definition example_curly_keys :: jstr where
  "example_curly_keys = js ''{'' @ [8220] @ js ''a'' @ [8221] @ js '':1}''"

definition example_curly_text :: jstr where
  "example_curly_text = [8220] @ js ''ok'' @ [8221]"

definition example_quoted_brace :: jstr where
  \<open>example_quoted_brace = js ''x {"a":"}'' @ [92, 34] @ js ''"} y''\<close>

section \<open>Dynamic values\<close>

text \<open>
  A value of the program is a JSON value or \<open>undefined\<close>, which is \<open>None\<close>. The
  functions below are the operators the sources apply to values of type \<open>any\<close>.
\<close>

type_synonym jsval = "json option"

datatype error =
    TypeError
  | StoreError
  | ProjectNotFound
  | PhaseRecordMissing
  | MissingEnv
  | ProxyError jstr
  | RequestTimeout
  | FetchFailed jstr
  | CallFailed
  | ParseFailed jstr
  | ValidationFailed "jstr list"

fun truthy :: "json \<Rightarrow> bool" where
  "truthy JNull = False"
| "truthy (JBool b) = b"
| "truthy (JNum n) = (n \<noteq> Finite 0)"
| "truthy (JStr s) = (s \<noteq> [])"
| "truthy (JArr xs) = True"
| "truthy (JObj m) = True"

definition truthyU :: "jsval \<Rightarrow> bool" where
  "truthyU x = (case x of None \<Rightarrow> False | Some v \<Rightarrow> truthy v)"

text \<open>
  \<open>js_prop v k\<close> is the read \<open>v.k\<close> on a value that is neither \<open>null\<close> nor \<open>undefined\<close>.
  Only an object has the members the sources read; no member name they use is a
  property of strings, arrays, numbers or booleans.
\<close>

fun js_prop :: "json \<Rightarrow> jstr \<Rightarrow> jsval" where
  "js_prop (JObj m) k = map_of m k"
| "js_prop v k = None"

text \<open>\<open>x?.k\<close>\<close>

definition opt_get :: "jsval \<Rightarrow> jstr \<Rightarrow> jsval" where
  "opt_get x k = (case x of None \<Rightarrow> None | Some JNull \<Rightarrow> None | Some v \<Rightarrow> js_prop v k)"

text \<open>\<open>x.k\<close>, which throws on \<open>null\<close> and \<open>undefined\<close>\<close>

definition get :: "jsval \<Rightarrow> jstr \<Rightarrow> error + jsval" where
  "get x k = (case x of None \<Rightarrow> Inl TypeError | Some JNull \<Rightarrow> Inl TypeError | Some v \<Rightarrow> Inr (js_prop v k))"

text \<open>\<open>a || b\<close> with a defined \<open>b\<close>\<close>

definition or_else :: "jsval \<Rightarrow> json \<Rightarrow> json" where
  "or_else a b = (case a of None \<Rightarrow> b | Some v \<Rightarrow> if truthy v then v else b)"

text \<open>\<open>Array.isArray(x) ? x : []\<close>\<close>

definition arr_or_empty :: "jsval \<Rightarrow> json list" where
  "arr_or_empty x = (case x of Some (JArr xs) \<Rightarrow> xs | _ \<Rightarrow> [])"

definition isArray :: "jsval \<Rightarrow> bool" where
  "isArray x = (case x of Some (JArr xs) \<Rightarrow> True | _ \<Rightarrow> False)"

definition isString :: "jsval \<Rightarrow> bool" where
  "isString x = (case x of Some (JStr s) \<Rightarrow> True | _ \<Rightarrow> False)"

text \<open>\<open>typeof x === 'object'\<close>, which holds of \<open>null\<close> too\<close>

definition typeofObject :: "jsval \<Rightarrow> bool" where
  "typeofObject x = (case x of Some (JObj m) \<Rightarrow> True | Some (JArr xs) \<Rightarrow> True
                     | Some JNull \<Rightarrow> True | _ \<Rightarrow> False)"

definition bindE :: "error + 'a \<Rightarrow> ('a \<Rightarrow> error + 'b) \<Rightarrow> error + 'b" where
  "bindE m f = (case m of Inl e \<Rightarrow> Inl e | Inr x \<Rightarrow> f x)"

text \<open>
  \<open>xs.find(f)\<close> and \<open>xs.some(f)\<close> for a callback that may throw: the elements are
  visited in order up to the first one on which the callback holds or throws.
\<close>

fun js_find :: "(json \<Rightarrow> error + bool) \<Rightarrow> json list \<Rightarrow> error + jsval" where
  "js_find f [] = Inr None"
| "js_find f (x # xs) =
     (case f x of Inl e \<Rightarrow> Inl e | Inr b \<Rightarrow> if b then Inr (Some x) else js_find f xs)"

fun js_some :: "(json \<Rightarrow> error + bool) \<Rightarrow> json list \<Rightarrow> error + bool" where
  "js_some f [] = Inr False"
| "js_some f (x # xs) =
     (case f x of Inl e \<Rightarrow> Inl e | Inr b \<Rightarrow> if b then Inr True else js_some f xs)"

text \<open>
  The built-ins of the host that the sources call and this development does not define:
  \<open>String.prototype.toLowerCase\<close>, the text of a number (inside \<open>String(x)\<close>),
  \<open>JSON.parse\<close>, and the schema validator of the Ajv library, which is given the stage
  type whose schema it compiles and returns \<open>None\<close> for a valid value and the list of
  its error objects otherwise.
\<close>

record AjvError =
  instancePath :: jstr
  err_message :: jstr

record builtins =
  toLowerCase :: "jstr \<Rightarrow> jstr"
  numberToString :: "jsnum \<Rightarrow> jstr"
  JSON_parse :: "jstr \<Rightarrow> jstr + json"
  ajv_validate :: "jstr \<Rightarrow> json \<Rightarrow> AjvError list option"

text \<open>
  \<open>String(x)\<close>. An array is the texts of its elements joined by commas (44), with the
  empty text for \<open>null\<close>.
\<close>

fun jsString_json :: "(jsnum \<Rightarrow> jstr) \<Rightarrow> json \<Rightarrow> jstr"
  and jsJoin :: "(jsnum \<Rightarrow> jstr) \<Rightarrow> json list \<Rightarrow> jstr"
where
  "jsString_json N JNull = js ''null''"
| "jsString_json N (JBool b) = (if b then js ''true'' else js ''false'')"
| "jsString_json N (JNum n) = N n"
| "jsString_json N (JStr s) = s"
| "jsString_json N (JArr xs) = jsJoin N xs"
| "jsString_json N (JObj m) = js ''[object Object]''"
| "jsJoin N [] = []"
| "jsJoin N [x] = (if x = JNull then [] else jsString_json N x)"
| "jsJoin N (x # y # ys) =
     (if x = JNull then [] else jsString_json N x) @ [44] @ jsJoin N (y # ys)"

definition jsString :: "builtins \<Rightarrow> jsval \<Rightarrow> jstr" where
  "jsString B x = (case x of None \<Rightarrow> js ''undefined'' | Some v \<Rightarrow> jsString_json (numberToString B) v)"

text \<open>
  The equality of \<open>Map\<close> and \<open>Set\<close> keys (SameValueZero): by value on strings, numbers,
  booleans and \<open>null\<close>, by identity on objects and arrays. The values read from
  different places of parsed outputs are never the same object, so two object or array
  keys are different keys.
\<close>

fun sameValueZero :: "json \<Rightarrow> json \<Rightarrow> bool" where
  "sameValueZero (JObj m) b = False"
| "sameValueZero (JArr xs) b = False"
| "sameValueZero a b = (a = b)"

definition set_has :: "json list \<Rightarrow> json \<Rightarrow> bool" where
  "set_has ks k = list_ex (\<lambda>k'. sameValueZero k' k) ks"

definition set_add :: "json \<Rightarrow> json list \<Rightarrow> json list" where
  "set_add k ks = (if set_has ks k then ks else ks @ [k])"

text \<open>
  \<open>map.set(k, v)\<close> on a \<open>Map\<close> kept as the list of its entries in insertion order: a
  key that is present keeps its place and takes the new value.
\<close>

fun map_set :: "json \<Rightarrow> 'v \<Rightarrow> (json \<times> 'v) list \<Rightarrow> (json \<times> 'v) list" where
  "map_set k v [] = [(k, v)]"
| "map_set k v ((k', v') # m) =
     (if sameValueZero k' k then (k', v) # m else (k', v') # map_set k v m)"

section \<open>Stage results and the decision ledger (supabase.ts, orchestrator.ts)\<close>

datatype phase_status = Pending | Processing | Completed | Failed

datatype AIProvider = OpenAI | Anthropic

text \<open>
  A row of \<open>planning_phases\<close>. Times are readings of a logical clock. The output is
  \<open>JNull\<close> until the stage completes.
\<close>

record PlanningPhase =
  ph_id :: nat
  project_id :: jstr
  phase_type :: jstr
  ph_output :: json
  ph_status :: phase_status
  model_used :: "AIProvider option"
  created_at :: nat
  completed_at :: "nat option"

text \<open>
  The decisions a result declares:
  \<open>phase.output?.decisions && Array.isArray(phase.output.decisions)\<close>.
\<close>

definition decisions_of :: "PlanningPhase \<Rightarrow> json list" where
  "decisions_of p = arr_or_empty (opt_get (Some (ph_output p)) (js ''decisions''))"

record LedgerEntry =
  entry_key :: jsval
  entry_value :: jsval
  entry_reason :: jsval

definition ledger_entry :: "json \<Rightarrow> LedgerEntry" where
  "ledger_entry d =
     \<lparr>entry_key = opt_get (Some d) (js ''key''),
      entry_value = opt_get (Some d) (js ''value''),
      entry_reason = opt_get (Some d) (js ''reason'')\<rparr>"

text \<open>The second loop of \<open>extractDecisionLedger\<close>: \<open>if (d?.key) map.set(d.key, ...)\<close>.\<close>

fun ledger_fold :: "json list \<Rightarrow> (json \<times> LedgerEntry) list \<Rightarrow> (json \<times> LedgerEntry) list" where
  "ledger_fold [] m = m"
| "ledger_fold (d # ds) m =
     (case opt_get (Some d) (js ''key'') of
        None \<Rightarrow> ledger_fold ds m
      | Some k \<Rightarrow>
          if truthy k then ledger_fold ds (map_set k (ledger_entry d) m)
          else ledger_fold ds m)"

definition extractDecisionLedger :: "PlanningPhase list \<Rightarrow> LedgerEntry list" where
  "extractDecisionLedger previousPhases =
     map snd (ledger_fold (concat (map decisions_of previousPhases)) [])"

text \<open>
  The ledger as the specification words it: the results are taken in the order of their
  completion, and the last declaration of a key wins.
\<close>

definition completion_time :: "PlanningPhase \<Rightarrow> nat" where
  "completion_time p = (case completed_at p of None \<Rightarrow> 0 | Some t \<Rightarrow> t)"

definition spec_ledger_by_completion :: "PlanningPhase list \<Rightarrow> LedgerEntry list" where
  "spec_ledger_by_completion results = extractDecisionLedger (sort_key completion_time results)"

section \<open>The quality checklist (quality-checklist.ts)\<close>

datatype checklist_status = Pass | Fail

text \<open>
  An item carries its rule's name and whether the rule holds (the truth of the value
  the source stores in \<open>passed\<close>); the display text \<open>details\<close> is left out.
\<close>

record ChecklistItem =
  check :: jstr
  passed :: bool

record Revision =
  rev_phase :: jstr
  rev_request :: jstr

record ChecklistResult =
  cl_status :: checklist_status
  cl_items :: "ChecklistItem list"
  failItems :: "jstr list"
  targetedRevisions :: "Revision list"

text \<open>\<open>byType[p.phase_type] = p.output || {}\<close> for every result, in order.\<close>

definition outputsByType :: "PlanningPhase list \<Rightarrow> jstr \<Rightarrow> jsval" where
  "outputsByType phases =
     fold (\<lambda>p m. m(phase_type p \<mapsto> or_else (Some (ph_output p)) (JObj []))) phases Map.empty"

text \<open>\<open>d => d.key?.toLowerCase().includes('auth')\<close>\<close>

definition authKeyMatches :: "builtins \<Rightarrow> json \<Rightarrow> error + bool" where
  "authKeyMatches B d =
     bindE (get (Some d) (js ''key''))
       (\<lambda>k. case k of
              None \<Rightarrow> Inr False
            | Some JNull \<Rightarrow> Inr False
            | Some (JStr t) \<Rightarrow> Inr (includes_str (toLowerCase B t) (js ''auth''))
            | Some _ \<Rightarrow> Inl TypeError)"

text \<open>\<open>e => String(e.name).toLowerCase() === 'users'\<close>\<close>

definition isUsersEntity :: "builtins \<Rightarrow> json \<Rightarrow> error + bool" where
  "isUsersEntity B e =
     bindE (get (Some e) (js ''name''))
       (\<lambda>n. Inr (toLowerCase B (jsString B n) = js ''users''))"

text \<open>\<open>c => c.name === n\<close>\<close>

definition columnNamed :: "jstr \<Rightarrow> json \<Rightarrow> error + bool" where
  "columnNamed n c = bindE (get (Some c) (js ''name'')) (\<lambda>v. Inr (v = Some (JStr n)))"

text \<open>The value of \<open>authConsistent\<close>; \<open>toLowerCase\<close> is a method of strings only.\<close>

definition authConsistent_of :: "builtins \<Rightarrow> json \<Rightarrow> bool \<Rightarrow> bool \<Rightarrow> error + bool" where
  "authConsistent_of B uxAuthChoice hasFirebaseUid hasPwdHash =
     (case uxAuthChoice of
        JStr t \<Rightarrow>
          Inr ((includes_str (toLowerCase B t) (js ''firebase'') \<and> hasFirebaseUid \<and> \<not> hasPwdHash)
               \<or> (includes_str (toLowerCase B t) (js ''local'') \<and> hasPwdHash \<and> \<not> hasFirebaseUid)
               \<or> (\<not> includes_str (toLowerCase B t) (js ''firebase'')
                   \<and> \<not> includes_str (toLowerCase B t) (js ''local'')))
      | _ \<Rightarrow> Inl TypeError)"

text \<open>Rule 6: the keys seen so far and the keys seen twice, as the two \<open>Set\<close>s.\<close>

fun duplicate_keys :: "json list \<Rightarrow> json list \<Rightarrow> json list \<Rightarrow> json list" where
  "duplicate_keys [] decisionKeys duplicates = duplicates"
| "duplicate_keys (d # ds) decisionKeys duplicates =
     (case opt_get (Some d) (js ''key'') of
        None \<Rightarrow> duplicate_keys ds decisionKeys duplicates
      | Some k \<Rightarrow>
          if truthy k then
            duplicate_keys ds (set_add k decisionKeys)
              (if set_has decisionKeys k then set_add k duplicates else duplicates)
          else duplicate_keys ds decisionKeys duplicates)"

text \<open>\<open>p => String(p?.title || '').toLowerCase()\<close>\<close>

definition promptTitle :: "builtins \<Rightarrow> json \<Rightarrow> jstr" where
  "promptTitle B p =
     toLowerCase B (jsString B (Some (or_else (opt_get (Some p) (js ''title'')) (JStr []))))"

definition text_of :: "jsval \<Rightarrow> jstr" where
  "text_of x = (case x of Some (JStr t) \<Rightarrow> t | _ \<Rightarrow> [])"

text \<open>
  The eight numbered rules of \<open>runQualityChecklist\<close>, each as what it pushes: its
  item, its entries of \<open>failItems\<close> and its entries of \<open>targetedRevisions\<close>.
\<close>

type_synonym rule_result = "ChecklistItem \<times> jstr list \<times> Revision list"

definition rule_auth :: "json \<Rightarrow> bool \<Rightarrow> rule_result" where
  "rule_auth uxAuthChoice authConsistent =
     (\<lparr>check = js ''Single source of truth for Auth selected and reflected across UX, API, Data'',
       passed = authConsistent\<rparr>,
      (if \<not> authConsistent then [js ''Auth mismatch across phases''] else []),
      (if \<not> authConsistent then
         [\<lparr>rev_phase = js ''system'',
           rev_request = js ''Ensure auth choice in decisions matches UX auth.choice: ''
                         @ text_of (Some uxAuthChoice)\<rparr>,
          \<lparr>rev_phase = js ''data'',
           rev_request = js ''Update users table: if Firebase auth, include firebase_uid and remove password_hash; if local auth, include password_hash and remove firebase_uid''\<rparr>]
       else []))"

definition rule_motion :: "json \<Rightarrow> rule_result" where
  "rule_motion ui =
     (let motion = opt_get (Some ui) (js ''motion'');
          hasMotion = (truthyU motion \<and> typeofObject (opt_get motion (js ''durations'')));
          skeletons = opt_get (Some ui) (js ''skeletons'');
          hasSkeletons = (isArray skeletons \<and> length (arr_or_empty skeletons) > 0)
      in (\<lparr>check = js ''Design tokens include motion+loading states'',
           passed = (hasMotion \<and> hasSkeletons)\<rparr>,
          (if \<not> hasMotion \<or> \<not> hasSkeletons
           then [js ''Missing motion or skeleton patterns in design system''] else []),
          (if \<not> hasMotion \<or> \<not> hasSkeletons then
             [\<lparr>rev_phase = js ''ui'',
               rev_request = js ''Add motion durations (fast/base/slow) and skeleton loading patterns''\<rparr>]
           else [])))"

definition rule_api :: "json \<Rightarrow> rule_result" where
  "rule_api api =
     (let openApiYaml = opt_get (Some api) (js ''openApiYaml'');
          hasOpenApi = (isString openApiYaml \<and> length (text_of openApiYaml) > 0);
          hasPagination = (hasOpenApi \<and> includes_str (text_of openApiYaml) (js ''cursor''));
          hasErrorModel = (hasOpenApi \<and> (includes_str (text_of openApiYaml) (js ''error'')
                                          \<or> includes_str (text_of openApiYaml) (js ''4'')))
      in (\<lparr>check = js ''Pagination and error model specified in OpenAPI'',
           passed = (hasPagination \<and> hasErrorModel)\<rparr>,
          (if \<not> hasPagination \<or> \<not> hasErrorModel
           then [js ''Missing pagination or error model in API spec''] else []),
          (if \<not> hasPagination \<or> \<not> hasErrorModel then
             [\<lparr>rev_phase = js ''api'',
               rev_request = js ''Ensure OpenAPI spec includes cursor-based pagination for list endpoints and proper error responses''\<rparr>]
           else [])))"

definition rule_nonFunctional :: "json \<Rightarrow> rule_result" where
  "rule_nonFunctional system =
     (let nonFunctional = opt_get (Some system) (js ''nonFunctional'');
          hasNonFunctional = (truthyU nonFunctional
                              \<and> isArray (opt_get nonFunctional (js ''performance''))
                              \<and> isArray (opt_get nonFunctional (js ''reliability''))
                              \<and> isArray (opt_get nonFunctional (js ''privacy'')))
      in (\<lparr>check = js ''Non-functional (perf/reliability/privacy) noted'',
           passed = hasNonFunctional\<rparr>,
          (if \<not> hasNonFunctional then [js ''Missing non-functional requirements''] else []),
          (if \<not> hasNonFunctional then
             [\<lparr>rev_phase = js ''system'',
               rev_request = js ''Add nonFunctional requirements covering performance, reliability, and privacy''\<rparr>]
           else [])))"

definition rule_providers :: "json \<Rightarrow> rule_result" where
  "rule_providers system =
     (let providersPolicies = opt_get (Some system) (js ''providersPolicies'');
          hasProvidersPolicies = (truthyU providersPolicies
                                  \<and> isArray (opt_get providersPolicies (js ''providers''))
                                  \<and> isString (opt_get providersPolicies (js ''quotas''))
                                  \<and> isString (opt_get providersPolicies (js ''caching'')))
      in (\<lparr>check = js ''Providers & Policies list quotas/caching/attribution'',
           passed = hasProvidersPolicies\<rparr>,
          (if \<not> hasProvidersPolicies then [js ''Missing provider policies''] else []),
          (if \<not> hasProvidersPolicies then
             [\<lparr>rev_phase = js ''system'',
               rev_request = js ''Add providersPolicies with quotas, caching, attribution, and data retention''\<rparr>]
           else [])))"

text \<open>Rule 6 pushes its item and nothing else.\<close>

definition rule_ledger :: "PlanningPhase list \<Rightarrow> rule_result" where
  "rule_ledger phases =
     (let allDecisions = concat (map decisions_of phases);
          duplicates = duplicate_keys allDecisions [] []
      in (\<lparr>check = js ''Decision Ledger consistent across all phases'',
           passed = (length duplicates = 0)\<rparr>,
          [], []))"

definition rule_prompts :: "builtins \<Rightarrow> json \<Rightarrow> rule_result" where
  \<open>rule_prompts B prompts =
     (let bolt = arr_or_empty (opt_get (Some prompts) (js ''bolt''));
          cursor = arr_or_empty (opt_get (Some prompts) (js ''cursor''));
          allPromptTitles = map (promptTitle B) (bolt @ cursor);
          hasScaffolding = list_ex (\<lambda>t. includes_str t (js ''scaffold'')) allPromptTitles;
          hasSmokeTest = list_ex (\<lambda>t. includes_str t (js ''smoke'') \<or> includes_str t (js ''release''))
                           allPromptTitles
      in (\<lparr>check = js ''Prompts include Scaffolding and Smoke Test + Release Checklist'',
           passed = (hasScaffolding \<and> hasSmokeTest)\<rparr>,
          (if \<not> hasScaffolding \<or> \<not> hasSmokeTest then [js ''Missing required prompts''] else []),
          (if \<not> hasScaffolding \<or> \<not> hasSmokeTest then
             [\<lparr>rev_phase = js ''prompts'',
               rev_request = js ''Add "Project Scaffolding" as first task and "Smoke Test + Release Checklist" as final task''\<rparr>]
           else [])))\<close>

definition rule_competitor :: "json \<Rightarrow> json \<Rightarrow> rule_result" where
  "rule_competitor competitor strategy =
     (let opportunities = opt_get (Some competitor) (js ''opportunities'');
          topInsights = opt_get (Some competitor) (js ''topInsights'');
          hasCompetitorData = ((isArray opportunities \<and> length (arr_or_empty opportunities) > 0)
                               \<or> (isArray topInsights \<and> length (arr_or_empty topInsights) > 0));
          featuresMustHave = arr_or_empty (opt_get (opt_get (Some strategy) (js ''features'')) (js ''must''));
          opportunitiesReflected = (\<not> hasCompetitorData \<or> length featuresMustHave > 0)
      in (\<lparr>check = js ''If competitor data present: opportunities reflected in features'',
           passed = opportunitiesReflected\<rparr>,
          (if hasCompetitorData \<and> \<not> opportunitiesReflected
           then [js ''Competitor insights not incorporated into strategy''] else []),
          (if hasCompetitorData \<and> \<not> opportunitiesReflected then
             [\<lparr>rev_phase = js ''strategy'',
               rev_request = js ''Incorporate competitor opportunities from competitor phase into Must/Should/Could features''\<rparr>]
           else [])))"

text \<open>
  The values rule 1 computes before its item, any of which may throw: the unused
  \<open>systemAuthDecision\<close>, the users entity, the two column tests and \<open>authConsistent\<close>.
\<close>

definition auth_consistency :: "builtins \<Rightarrow> json \<Rightarrow> json \<Rightarrow> json \<Rightarrow> error + bool" where
  "auth_consistency B uxAuthChoice system data =
     bindE (js_find (authKeyMatches B) (arr_or_empty (opt_get (Some system) (js ''decisions''))))
       (\<lambda>systemAuthDecision.
     bindE (js_find (isUsersEntity B) (arr_or_empty (opt_get (Some data) (js ''entities''))))
       (\<lambda>usersEntity.
     bindE (js_some (columnNamed (js ''password_hash''))
              (arr_or_empty (opt_get usersEntity (js ''columns''))))
       (\<lambda>hasPwdHash.
     bindE (js_some (columnNamed (js ''firebase_uid''))
              (arr_or_empty (opt_get usersEntity (js ''columns''))))
       (\<lambda>hasFirebaseUid.
     authConsistent_of B uxAuthChoice hasFirebaseUid hasPwdHash))))"

definition collect_rules :: "rule_result list \<Rightarrow> ChecklistResult" where
  "collect_rules rs =
     \<lparr>cl_status = (if length (concat (map (\<lambda>r. fst (snd r)) rs)) = 0 then Pass else Fail),
      cl_items = map fst rs,
      failItems = concat (map (\<lambda>r. fst (snd r)) rs),
      targetedRevisions = concat (map (\<lambda>r. snd (snd r)) rs)\<rparr>"

definition runQualityChecklist :: "builtins \<Rightarrow> PlanningPhase list \<Rightarrow> error + ChecklistResult" where
  "runQualityChecklist B phases =
     (let byType = outputsByType phases;
          ux = or_else (byType (js ''ux'')) (JObj []);
          system = or_else (byType (js ''system'')) (JObj []);
          data = or_else (byType (js ''data'')) (JObj []);
          uxAuthChoice = or_else (opt_get (opt_get (Some ux) (js ''auth'')) (js ''choice'')) (JStr [])
      in bindE (auth_consistency B uxAuthChoice system data)
           (\<lambda>authConsistent.
              Inr (collect_rules
                [rule_auth uxAuthChoice authConsistent,
                 rule_motion (or_else (byType (js ''ui'')) (JObj [])),
                 rule_api (or_else (byType (js ''api'')) (JObj [])),
                 rule_nonFunctional system,
                 rule_providers system,
                 rule_ledger phases,
                 rule_prompts B (or_else (byType (js ''prompts'')) (JObj [])),
                 rule_competitor (or_else (byType (js ''competitor'')) (JObj []))
                   (or_else (byType (js ''strategy'')) (JObj []))])))"

section \<open>The world outside the orchestrator\<close>

text \<open>
  The generation backend, the random number generator and the durable store are
  outside the program. Each is a script that the program reads in order: the outcome of
  the \<open>n\<close>-th \<open>fetch\<close>, the \<open>n\<close>-th value of \<open>Math.random()\<close>, and whether the store
  performs its \<open>n\<close>-th operation. The number of store operations so far is also the
  time that the store and \<open>new Date()\<close> read.
\<close>

datatype fetch_outcome =
    FetchOk jstr jstr
  | FetchNotOk jstr
  | FetchAbort
  | FetchThrows jstr

datatype project_status = Draft | Planning | CompletedProject

text \<open>The columns of \<open>projects\<close> other than the status only feed the prompt text.\<close>

record Project =
  proj_id :: jstr
  proj_status :: project_status

text \<open>
  The user message of a call is the contextual prompt, which embeds the folded decision
  ledger of the results so far, or the repair prompt, which embeds the validation
  errors. The texts themselves are not modelled.
\<close>

datatype prompt = ContextualPrompt "LedgerEntry list" | RepairPrompt "jstr list"

record message =
  msg_stage :: jstr
  msg_prompt :: prompt

record call_options =
  opt_temperature :: "rat option"
  opt_maxTokens :: "nat option"
  opt_retries :: "int option"

record request =
  req_message :: message
  req_provider :: AIProvider
  req_temperature :: rat
  req_maxTokens :: nat

record AIResponse =
  content :: jstr
  model :: jstr

record OrchestrationProgress =
  currentPhase :: jstr
  completedPhases :: "jstr list"
  totalPhases :: nat
  progress_error :: "error option"

text \<open>
  What the program does to the world, in order: a stage run entered (with the type of
  the stage, \<open>None\<close> when the phase object has none), a call of the backend client, one
  \<open>fetch\<close>, a sleep in milliseconds, a progress notification.
\<close>

datatype event =
    EInvoke "jstr option"
  | ECall request
  | EFetch
  | ESleep nat
  | EProgress OrchestrationProgress

record world =
  env_ok :: bool
  fetch_script :: "nat \<Rightarrow> fetch_outcome"
  n_fetch :: nat
  random_script :: "nat \<Rightarrow> rat"
  n_random :: nat
  store_script :: "nat \<Rightarrow> bool"
  n_store :: nat
  project_row :: "Project option"
  planning_phases :: "PlanningPhase list"
  trace :: "event list"

text \<open>The stage runs, the backend calls and the sleeps of a trace, in order.\<close>

fun invocations :: "event list \<Rightarrow> jstr option list" where
  "invocations [] = []"
| "invocations (EInvoke t # es) = t # invocations es"
| "invocations (e # es) = invocations es"

fun calls :: "event list \<Rightarrow> request list" where
  "calls [] = []"
| "calls (ECall r # es) = r # calls es"
| "calls (e # es) = calls es"

fun sleeps :: "event list \<Rightarrow> nat list" where
  "sleeps [] = []"
| "sleeps (ESleep ms # es) = ms # sleeps es"
| "sleeps (e # es) = sleeps es"

definition is_ok :: "fetch_outcome \<Rightarrow> bool" where
  "is_ok x = (case x of FetchOk c m \<Rightarrow> True | _ \<Rightarrow> False)"

definition log_event :: "event \<Rightarrow> world \<Rightarrow> world" where
  "log_event e w = w\<lparr>trace := trace w @ [e]\<rparr>"

definition do_fetch :: "world \<Rightarrow> world \<times> fetch_outcome" where
  "do_fetch w = (w\<lparr>n_fetch := n_fetch w + 1, trace := trace w @ [EFetch]\<rparr>, fetch_script w (n_fetch w))"

definition next_random :: "world \<Rightarrow> world \<times> rat" where
  "next_random w = (w\<lparr>n_random := n_random w + 1\<rparr>, random_script w (n_random w))"

text \<open>One store operation: whether the store performs it, and the world after it.\<close>

definition store_op :: "world \<Rightarrow> world \<times> bool" where
  "store_op w = (w\<lparr>n_store := n_store w + 1\<rparr>, store_script w (n_store w))"

text \<open>\<open>supabase.from('projects').select('*').eq('id', projectId).maybeSingle()\<close>\<close>

definition select_project :: "world \<Rightarrow> jstr \<Rightarrow> world \<times> (error + Project option)" where
  "select_project w pid =
     (let (w1, ok) = store_op w
      in if \<not> ok then (w1, Inl StoreError)
         else (w1, Inr (case project_row w of
                          None \<Rightarrow> None
                        | Some p \<Rightarrow> if proj_id p = pid then Some p else None)))"

text \<open>
  \<open>supabase.from('projects').update({ status }).eq('id', projectId)\<close>, whose result
  the source does not look at.
\<close>

definition update_project_status :: "project_status \<Rightarrow> jstr \<Rightarrow> world \<Rightarrow> world" where
  "update_project_status st pid w =
     (let (w1, ok) = store_op w
      in if ok then
           w1\<lparr>project_row :=
                 (case project_row w1 of
                    None \<Rightarrow> None
                  | Some p \<Rightarrow> if proj_id p = pid then Some (p\<lparr>proj_status := st\<rparr>) else Some p)\<rparr>
         else w1)"

text \<open>
  The insert of \<open>runPhase\<close>. The column \<open>phase_type\<close> is declared \<open>NOT NULL\<close>, so the
  store refuses a row without it. The store gives the row an identifier that no row
  of the table has.
\<close>

definition fresh_id :: "PlanningPhase list \<Rightarrow> nat" where
  "fresh_id rows = foldr (\<lambda>r m. max (Suc (ph_id r)) m) rows 0"

definition insert_phase :: "world \<Rightarrow> jstr \<Rightarrow> jstr option \<Rightarrow> world \<times> (error + PlanningPhase)" where
  "insert_phase w pid ty =
     (let (w1, ok) = store_op w
      in case ty of
           None \<Rightarrow> (w1, Inl StoreError)
         | Some t \<Rightarrow>
             if \<not> ok then (w1, Inl StoreError)
             else
               (let row = \<lparr>ph_id = fresh_id (planning_phases w1), project_id = pid, phase_type = t,
                           ph_output = JNull, ph_status = Processing, model_used = None,
                           created_at = n_store w, completed_at = None\<rparr>
                in (w1\<lparr>planning_phases := planning_phases w1 @ [row]\<rparr>, Inr row)))"

definition update_row :: "nat \<Rightarrow> (PlanningPhase \<Rightarrow> PlanningPhase) \<Rightarrow> PlanningPhase list \<Rightarrow> PlanningPhase list" where
  "update_row i f rows = map (\<lambda>r. if ph_id r = i then f r else r) rows"

text \<open>
  The update of \<open>runPhase\<close> on success, with \<open>.select().single()\<close>: the row after the
  update, or an error when the store fails or has no such row. An \<open>undefined\<close> output
  leaves the column as it is.
\<close>

definition complete_phase :: "world \<Rightarrow> nat \<Rightarrow> jsval \<Rightarrow> AIProvider \<Rightarrow> world \<times> (error + PlanningPhase)" where
  "complete_phase w i out prov =
     (let (w1, ok) = store_op w;
          f = (\<lambda>r. r\<lparr>ph_output := (case out of None \<Rightarrow> ph_output r | Some v \<Rightarrow> v),
                     ph_status := Completed, model_used := Some prov,
                     completed_at := Some (n_store w)\<rparr>)
      in if \<not> ok then (w1, Inl StoreError)
         else (case find (\<lambda>r. ph_id r = i) (planning_phases w1) of
                 None \<Rightarrow> (w1, Inl StoreError)
               | Some r \<Rightarrow> (w1\<lparr>planning_phases := update_row i f (planning_phases w1)\<rparr>, Inr (f r))))"

text \<open>The update in the \<open>catch\<close> of \<open>runPhase\<close>, whose result the source does not look at.\<close>

definition fail_phase :: "nat \<Rightarrow> world \<Rightarrow> world" where
  "fail_phase i w =
     (let (w1, ok) = store_op w
      in if ok then w1\<lparr>planning_phases := update_row i (\<lambda>r. r\<lparr>ph_status := Failed\<rparr>) (planning_phases w1)\<rparr>
         else w1)"

section \<open>The backend client (ai-client.ts)\<close>

text \<open>\<open>(attempt + 1) * 1000 + Math.floor(Math.random() * 250)\<close>\<close>

definition backoffMs :: "nat \<Rightarrow> rat \<Rightarrow> nat" where
  "backoffMs attempt r = (attempt + 1) * 1000 + nat \<lfloor>r * 250\<rfloor>"

definition fetch_error :: "fetch_outcome \<Rightarrow> error" where
  "fetch_error outcome =
     (case outcome of
        FetchAbort \<Rightarrow> RequestTimeout
      | FetchNotOk t \<Rightarrow> ProxyError t
      | FetchThrows m \<Rightarrow> FetchFailed m
      | FetchOk c m \<Rightarrow> CallFailed)"

text \<open>The retry loop of \<open>callAI\<close>, from \<open>attempt\<close> with the \<open>lastError\<close> so far.\<close>

function callAI_loop :: "world \<Rightarrow> int \<Rightarrow> nat \<Rightarrow> error option \<Rightarrow> world \<times> (error + AIResponse)" where
  "callAI_loop w maxRetries attempt lastError =
     (if int attempt < maxRetries then
        (case do_fetch w of
           (w1, FetchOk c m) \<Rightarrow> (w1, Inr \<lparr>content = c, model = m\<rparr>)
         | (w1, outcome) \<Rightarrow>
             if int attempt < maxRetries - 1 then
               (case next_random w1 of
                  (w2, r) \<Rightarrow>
                    callAI_loop (log_event (ESleep (backoffMs attempt r)) w2) maxRetries (attempt + 1)
                      (Some (fetch_error outcome)))
             else callAI_loop w1 maxRetries (attempt + 1) (Some (fetch_error outcome)))
      else (w, Inl (case lastError of Some e \<Rightarrow> e | None \<Rightarrow> CallFailed)))"
  by pat_completeness auto
termination
  by (relation "measure (\<lambda>(w, maxRetries, attempt, lastError). nat (maxRetries - int attempt))") auto

definition callAI :: "world \<Rightarrow> message \<Rightarrow> AIProvider \<Rightarrow> call_options \<Rightarrow> world \<times> (error + AIResponse)" where
  "callAI w messages prov options =
     (let temperature = (case opt_temperature options of None \<Rightarrow> 2 / 10 | Some t \<Rightarrow> t);
          maxTokens = (case opt_maxTokens options of None \<Rightarrow> 4000 | Some n \<Rightarrow> n);
          maxRetries = (case opt_retries options of None \<Rightarrow> 3 | Some n \<Rightarrow> n);
          w0 = log_event (ECall \<lparr>req_message = messages, req_provider = prov,
                                  req_temperature = temperature, req_maxTokens = maxTokens\<rparr>) w
      in if \<not> env_ok w then (w0, Inl MissingEnv)
         else callAI_loop w0 maxRetries 0 None)"

text \<open>\<open>validateJSON\<close>: each error is \<open>`${err.instancePath || '/'} ${err.message}`\<close>.\<close>

record validation =
  valid :: bool
  errors :: "jstr list"

definition validateJSON :: "builtins \<Rightarrow> jstr \<Rightarrow> json \<Rightarrow> validation" where
  "validateJSON B stage data =
     (case ajv_validate B stage data of
        Some errs \<Rightarrow>
          \<lparr>valid = False,
           errors = map (\<lambda>err. (if instancePath err = [] then js ''/'' else instancePath err)
                                @ js '' '' @ err_message err) errs\<rparr>
      | None \<Rightarrow> \<lparr>valid = True, errors = []\<rparr>)"

section \<open>The orchestrator (agents.ts, orchestrator.ts)\<close>

text \<open>
  A stage of the pipeline. Its description, system prompt and schema are static texts:
  the schema is what the validator is given through the stage type, the other two only
  feed the prompt.
\<close>

record AgentPhase =
  ap_type :: jstr
  ap_name :: jstr

definition AGENT_PHASES :: "AgentPhase list" where
  "AGENT_PHASES =
     [\<lparr>ap_type = js ''competitor'', ap_name = js ''Research Analyst''\<rparr>,
      \<lparr>ap_type = js ''strategy'', ap_name = js ''Strategy Architect''\<rparr>,
      \<lparr>ap_type = js ''ux'', ap_name = js ''UX Architect''\<rparr>,
      \<lparr>ap_type = js ''system'', ap_name = js ''System Architect''\<rparr>,
      \<lparr>ap_type = js ''data'', ap_name = js ''Data Modeler''\<rparr>,
      \<lparr>ap_type = js ''api'', ap_name = js ''API Designer''\<rparr>,
      \<lparr>ap_type = js ''ui'', ap_name = js ''UI Design System''\<rparr>,
      \<lparr>ap_type = js ''prompts'', ap_name = js ''Prompt Engineer''\<rparr>,
      \<lparr>ap_type = js ''qa'', ap_name = js ''QA Manager''\<rparr>,
      \<lparr>ap_type = js ''techwriter'', ap_name = js ''Technical Writer''\<rparr>,
      \<lparr>ap_type = js ''critic'', ap_name = js ''Critic/QA''\<rparr>,
      \<lparr>ap_type = js ''composer'', ap_name = js ''Composer''\<rparr>]"

record orchestrator =
  projectId :: jstr
  provider :: AIProvider

definition notifyProgress :: "OrchestrationProgress \<Rightarrow> world \<Rightarrow> world" where
  "notifyProgress progress w = log_event (EProgress progress) w"

text \<open>
  \<open>crossPhaseChecks\<close> only warns on the console; what remains of it is whether it
  throws. First the value of \<open>uxAuth\<close>:
  \<open>byType['ux']?.auth?.choice || byType['system']?.decisions?.find(...)?.value\<close>.
\<close>

definition cross_uxAuth :: "(jstr \<Rightarrow> jsval) \<Rightarrow> error + jsval" where
  "cross_uxAuth byType =
     (let choice = opt_get (opt_get (byType (js ''ux'')) (js ''auth'')) (js ''choice'')
      in if truthyU choice then Inr choice
         else
           (case opt_get (byType (js ''system'')) (js ''decisions'') of
              None \<Rightarrow> Inr None
            | Some JNull \<Rightarrow> Inr None
            | Some (JArr ds) \<Rightarrow>
                bindE (js_find (\<lambda>d. bindE (get (Some d) (js ''key''))
                                      (\<lambda>k. Inr (k = Some (JStr (js ''auth.choice''))))) ds)
                  (\<lambda>found. Inr (opt_get found (js ''value'')))
            | Some _ \<Rightarrow> Inl TypeError))"

text \<open>The body of \<open>if (uxAuth)\<close>.\<close>

definition cross_users :: "builtins \<Rightarrow> json \<Rightarrow> (jstr \<Rightarrow> jsval) \<Rightarrow> error option" where
  "cross_users B out byType =
     (let e1 = opt_get (Some out) (js ''entities'');
          e2 = opt_get (byType (js ''data'')) (js ''entities'');
          entities = (if truthyU e1 then e1 else if truthyU e2 then e2 else Some (JArr []));
          users = (if isArray entities then
                     js_find (\<lambda>e. bindE (get (Some e) (js ''name''))
                                     (\<lambda>n. Inr (toLowerCase B (jsString B (Some (or_else n (JStr []))))
                                               = js ''users'')))
                       (arr_or_empty entities)
                   else Inr (Some JNull))
      in case users of
           Inl e \<Rightarrow> Some e
         | Inr u \<Rightarrow>
             if truthyU u \<and> isArray (opt_get u (js ''columns'')) then
               (case js_some (columnNamed (js ''password_hash'')) (arr_or_empty (opt_get u (js ''columns''))) of
                  Inl e \<Rightarrow> Some e
                | Inr hasPwd \<Rightarrow>
                    (case js_some (columnNamed (js ''firebase_uid'')) (arr_or_empty (opt_get u (js ''columns''))) of
                       Inl e \<Rightarrow> Some e
                     | Inr hasFirebase \<Rightarrow> None))
             else None)"

definition crossPhaseChecks :: "builtins \<Rightarrow> jstr \<Rightarrow> json \<Rightarrow> PlanningPhase list \<Rightarrow> error option" where
  "crossPhaseChecks B currentType out previous =
     (if currentType = js ''data'' \<or> currentType = js ''api'' \<or> currentType = js ''composer'' then
        (case cross_uxAuth (outputsByType previous) of
           Inl e \<Rightarrow> Some e
         | Inr uxAuth \<Rightarrow> if truthyU uxAuth then cross_users B out (outputsByType previous) else None)
      else None)"

text \<open>
  One turn of the loop of \<open>runPhase\<close>: it leaves the loop with the validated output,
  goes on to the next attempt with the current value of the variable \<open>output\<close>, or
  throws.
\<close>

datatype attempt_outcome = Break json | Continue jsval | Throw error

definition maxRetries_phase :: nat where
  "maxRetries_phase = 3"

definition generate_options :: call_options where
  "generate_options = \<lparr>opt_temperature = Some (2 / 10), opt_maxTokens = Some 4000, opt_retries = None\<rparr>"

definition repair_options :: call_options where
  "repair_options = \<lparr>opt_temperature = Some (1 / 10), opt_maxTokens = Some 4000, opt_retries = None\<rparr>"

text \<open>The repair call and what follows it, for an output that failed validation.\<close>

definition repair_step :: "builtins \<Rightarrow> orchestrator \<Rightarrow> world \<Rightarrow> AgentPhase \<Rightarrow> json \<Rightarrow> jstr list
    \<Rightarrow> world \<times> attempt_outcome" where
  "repair_step B orc w phase out errs =
     (case callAI w \<lparr>msg_stage = ap_type phase, msg_prompt = RepairPrompt errs\<rparr> (provider orc) repair_options of
        (w2, Inl e) \<Rightarrow> (w2, Throw e)
      | (w2, Inr repairResponse) \<Rightarrow>
          (case parseJSONResponse (JSON_parse B) (content repairResponse) of
             Inl parseError \<Rightarrow> (w2, Continue (Some out))
           | Inr out2 \<Rightarrow>
               if valid (validateJSON B (ap_type phase) out2) then (w2, Break out2)
               else (w2, Continue (Some out2))))"

definition attempt_step :: "builtins \<Rightarrow> orchestrator \<Rightarrow> world \<Rightarrow> AgentPhase \<Rightarrow> PlanningPhase list
    \<Rightarrow> jsval \<Rightarrow> nat \<Rightarrow> world \<times> attempt_outcome" where
  "attempt_step B orc w phase previousPhases output_var attempt =
     (case callAI w \<lparr>msg_stage = ap_type phase,
                      msg_prompt = ContextualPrompt (extractDecisionLedger previousPhases)\<rparr>
             (provider orc) generate_options of
        (w1, Inl e) \<Rightarrow> (w1, Throw e)
      | (w1, Inr response) \<Rightarrow>
          (case parseJSONResponse (JSON_parse B) (content response) of
             Inl parseError \<Rightarrow>
               if attempt < maxRetries_phase - 1 then (w1, Continue output_var)
               else (w1, Throw (ParseFailed parseError))
           | Inr out \<Rightarrow>
               if valid (validateJSON B (ap_type phase) out) then
                 (case crossPhaseChecks B (ap_type phase) out previousPhases of
                    Some e \<Rightarrow> (w1, Throw e)
                  | None \<Rightarrow> (w1, Break out))
               else if attempt < maxRetries_phase - 1 then
                 repair_step B orc w1 phase out (errors (validateJSON B (ap_type phase) out))
               else (w1, Throw (ValidationFailed (errors (validateJSON B (ap_type phase) out))))))"

function generation_loop :: "builtins \<Rightarrow> orchestrator \<Rightarrow> world \<Rightarrow> AgentPhase \<Rightarrow> PlanningPhase list
    \<Rightarrow> jsval \<Rightarrow> nat \<Rightarrow> world \<times> (error + jsval)" where
  "generation_loop B orc w phase previousPhases output_var attempt =
     (if attempt < maxRetries_phase then
        (case attempt_step B orc w phase previousPhases output_var attempt of
           (w1, Break out) \<Rightarrow> (w1, Inr (Some out))
         | (w1, Continue out) \<Rightarrow> generation_loop B orc w1 phase previousPhases out (attempt + 1)
         | (w1, Throw e) \<Rightarrow> (w1, Inl e))
      else (w, Inr output_var))"
  by pat_completeness auto
termination
  by (relation "measure (\<lambda>(B, orc, w, phase, previousPhases, output_var, attempt). maxRetries_phase - attempt)")
     auto

definition runPhase :: "builtins \<Rightarrow> orchestrator \<Rightarrow> world \<Rightarrow> AgentPhase \<Rightarrow> PlanningPhase list
    \<Rightarrow> world \<times> (error + PlanningPhase)" where
  "runPhase B orc w phase previousPhases =
     (case insert_phase (log_event (EInvoke (Some (ap_type phase))) w) (projectId orc) (Some (ap_type phase)) of
        (w1, Inl insertErr) \<Rightarrow> (w1, Inl insertErr)
      | (w1, Inr phaseRecord) \<Rightarrow>
          (case generation_loop B orc w1 phase previousPhases None 0 of
             (w2, Inl e) \<Rightarrow> (fail_phase (ph_id phaseRecord) w2, Inl e)
           | (w2, Inr out) \<Rightarrow>
               (case complete_phase w2 (ph_id phaseRecord) out (provider orc) of
                  (w3, Inl updateErr) \<Rightarrow> (fail_phase (ph_id phaseRecord) w3, Inl updateErr)
                | (w3, Inr updatedPhase) \<Rightarrow> (w3, Inr updatedPhase))))"

text \<open>
  \<open>const byType = {}; for (const ap of AGENT_PHASES) byType[ap.type] = ap\<close>, and the
  read \<open>byType[type]\<close>. \<open>byType\<close> is a plain object, so a read of a name it does not own
  falls through to \<open>Object.prototype\<close>; of its members, \<open>constructor\<close> and \<open>__proto__\<close>
  have names that a lower-cased text can equal, and both are objects.
\<close>

datatype phase_ref = Stage AgentPhase | InheritedMember jstr

definition phasesByType :: "jstr \<Rightarrow> AgentPhase option" where
  "phasesByType = fold (\<lambda>ap m. m(ap_type ap \<mapsto> ap)) AGENT_PHASES Map.empty"

definition byType_lookup :: "jstr \<Rightarrow> phase_ref option" where
  "byType_lookup t =
     (case phasesByType t of
        Some ap \<Rightarrow> Some (Stage ap)
      | None \<Rightarrow>
          if t = js ''constructor'' \<or> t = js ''__proto__'' then Some (InheritedMember t)
          else None)"

text \<open>
  \<open>idx = completedPhases.findIndex(p => p.phase_type === type)\<close>, then
  \<open>completedPhases[idx] = rerun\<close> when there is such an index and \<open>push(rerun)\<close> otherwise.
\<close>

fun replaceResult :: "jstr \<Rightarrow> PlanningPhase \<Rightarrow> PlanningPhase list \<Rightarrow> PlanningPhase list" where
  "replaceResult ty rerun [] = [rerun]"
| "replaceResult ty rerun (p # ps) =
     (if phase_type p = ty then rerun # ps else p # replaceResult ty rerun ps)"

text \<open>
  \<open>runPhase\<close> on what \<open>byType[type]\<close> returned, and the replacement of the result. An
  inherited member has no \<open>type\<close>: the insert has no \<open>phase_type\<close> and the store refuses
  it. The third component is the error thrown, if any.
\<close>

definition rerun :: "builtins \<Rightarrow> orchestrator \<Rightarrow> world \<Rightarrow> phase_ref \<Rightarrow> PlanningPhase list
    \<Rightarrow> world \<times> PlanningPhase list \<times> error option" where
  "rerun B orc w ref completed =
     (case ref of
        Stage phase \<Rightarrow>
          (case runPhase B orc w phase completed of
             (w1, Inl e) \<Rightarrow> (w1, completed, Some e)
           | (w1, Inr r) \<Rightarrow> (w1, replaceResult (ap_type phase) r completed, None))
      | InheritedMember m \<Rightarrow>
          (case insert_phase (log_event (EInvoke None) w) (projectId orc) None of
             (w1, Inl e) \<Rightarrow> (w1, completed, Some e)
           | (w1, Inr r) \<Rightarrow> (w1, completed @ [r], None)))"

text \<open>
  The loop shared by \<open>applyQualityChecklist\<close> and \<open>applyCriticRevisions\<close>, over the
  lower-cased target of each request (or the error that computing it throws):
  \<open>const phase = byType[type]; if (!phase) continue;\<close> and the re-run.
\<close>

fun rerun_requested :: "builtins \<Rightarrow> orchestrator \<Rightarrow> world \<Rightarrow> (error + jstr) list \<Rightarrow> PlanningPhase list
    \<Rightarrow> world \<times> PlanningPhase list \<times> error option" where
  "rerun_requested B orc w [] completed = (w, completed, None)"
| "rerun_requested B orc w (Inl e # targets) completed = (w, completed, Some e)"
| "rerun_requested B orc w (Inr ty # targets) completed =
     (case byType_lookup ty of
        None \<Rightarrow> rerun_requested B orc w targets completed
      | Some ref \<Rightarrow>
          (case rerun B orc w ref completed of
             (w1, completed1, Some e) \<Rightarrow> (w1, completed1, Some e)
           | (w1, completed1, None) \<Rightarrow> rerun_requested B orc w1 targets completed1))"

text \<open>\<open>String(rev.phase || '').toLowerCase()\<close> for the text \<open>rev.phase\<close>\<close>

definition checklist_target :: "builtins \<Rightarrow> Revision \<Rightarrow> error + jstr" where
  "checklist_target B revision = Inr (toLowerCase B (rev_phase revision))"

definition applyQualityChecklist :: "builtins \<Rightarrow> orchestrator \<Rightarrow> world \<Rightarrow> PlanningPhase list
    \<Rightarrow> world \<times> PlanningPhase list \<times> error option" where
  "applyQualityChecklist B orc w completed =
     (case runQualityChecklist B completed of
        Inl e \<Rightarrow> (w, completed, Some e)
      | Inr checklist \<Rightarrow>
          if cl_status checklist = Pass then (w, completed, None)
          else rerun_requested B orc w (map (checklist_target B) (targetedRevisions checklist)) completed)"

text \<open>\<open>String(r.targetPhase || '').toLowerCase()\<close>\<close>

definition critic_target :: "builtins \<Rightarrow> json \<Rightarrow> error + jstr" where
  "critic_target B r =
     bindE (get (Some r) (js ''targetPhase''))
       (\<lambda>t. Inr (toLowerCase B (jsString B (Some (or_else t (JStr []))))))"

definition lt_half :: "jsnum \<Rightarrow> bool" where
  "lt_half n = (case n of Finite r \<Rightarrow> r < 1 / 2 | NegInf \<Rightarrow> True | PosInf \<Rightarrow> False)"

definition critic_revs :: "json \<Rightarrow> json list" where
  "critic_revs out = arr_or_empty (opt_get (Some out) (js ''revisionRequests''))"

definition critic_severity :: "json \<Rightarrow> jsnum" where
  "critic_severity out =
     (case opt_get (Some out) (js ''severityIndex'') of Some (JNum n) \<Rightarrow> n | _ \<Rightarrow> Finite 0)"

text \<open>\<open>const p = byType[name]; if (p) { rerun }\<close> for the critic and the composer.\<close>

definition rerun_named :: "builtins \<Rightarrow> orchestrator \<Rightarrow> world \<Rightarrow> jstr \<Rightarrow> PlanningPhase list
    \<Rightarrow> world \<times> PlanningPhase list \<times> error option" where
  "rerun_named B orc w ty completed =
     (case byType_lookup ty of
        None \<Rightarrow> (w, completed, None)
      | Some ref \<Rightarrow> rerun B orc w ref completed)"

definition applyCriticRevisions :: "builtins \<Rightarrow> orchestrator \<Rightarrow> world \<Rightarrow> PlanningPhase list
    \<Rightarrow> world \<times> PlanningPhase list \<times> error option" where
  "applyCriticRevisions B orc w completed =
     (case find (\<lambda>p. phase_type p = js ''critic'') completed of
        None \<Rightarrow> (w, completed, None)
      | Some critic \<Rightarrow>
          if \<not> truthy (ph_output critic) then (w, completed, None)
          else if length (critic_revs (ph_output critic)) = 0 \<and> lt_half (critic_severity (ph_output critic))
          then (w, completed, None)
          else
            (case rerun_requested B orc w (map (critic_target B) (critic_revs (ph_output critic))) completed of
               (w1, completed1, Some e) \<Rightarrow> (w1, completed1, Some e)
             | (w1, completed1, None) \<Rightarrow>
                 (case rerun_named B orc w1 (js ''critic'') completed1 of
                    (w2, completed2, Some e) \<Rightarrow> (w2, completed2, Some e)
                  | (w2, completed2, None) \<Rightarrow> rerun_named B orc w2 (js ''composer'') completed2)))"

text \<open>The first pass of \<open>runAllPhases\<close> over the stages that remain.\<close>

fun firstPass :: "builtins \<Rightarrow> orchestrator \<Rightarrow> world \<Rightarrow> AgentPhase list \<Rightarrow> PlanningPhase list
    \<Rightarrow> world \<times> PlanningPhase list \<times> error option" where
  "firstPass B orc w [] completed = (w, completed, None)"
| "firstPass B orc w (phase # rest) completed =
     (case runPhase B orc
             (notifyProgress \<lparr>currentPhase = ap_name phase, completedPhases = map phase_type completed,
                              totalPhases = length AGENT_PHASES, progress_error = None\<rparr> w)
             phase completed of
        (w1, Inr result) \<Rightarrow> firstPass B orc w1 rest (completed @ [result])
      | (w1, Inl e) \<Rightarrow>
          (update_project_status Draft (projectId orc)
             (notifyProgress \<lparr>currentPhase = ap_name phase, completedPhases = map phase_type completed,
                              totalPhases = length AGENT_PHASES, progress_error = Some e\<rparr> w1),
           completed, Some e))"

text \<open>
  \<open>generatePrompts\<close> writes rows of the table \<open>prompts\<close>, which is not modelled, and may
  throw on an ill-formed prompts output. Its two effects are taken as given by
  \<open>gp\<close>: the number of store operations it performs and the error it throws, if any.
\<close>

definition generatePrompts :: "(PlanningPhase list \<Rightarrow> nat \<times> error option) \<Rightarrow> PlanningPhase list \<Rightarrow> world
    \<Rightarrow> world \<times> error option" where
  "generatePrompts gp phases w = (w\<lparr>n_store := n_store w + fst (gp phases)\<rparr>, snd (gp phases))"

text \<open>The three steps of \<open>runAllPhases\<close> after the first pass, and its last writes.\<close>

definition afterFirstPass :: "builtins \<Rightarrow> orchestrator \<Rightarrow> (PlanningPhase list \<Rightarrow> nat \<times> error option)
    \<Rightarrow> world \<Rightarrow> PlanningPhase list \<Rightarrow> world \<times> error option" where
  "afterFirstPass B orc gp w completed =
     (case applyQualityChecklist B orc w completed of
        (w1, completed1, Some e) \<Rightarrow> (w1, Some e)
      | (w1, completed1, None) \<Rightarrow>
          (case applyCriticRevisions B orc w1 completed1 of
             (w2, completed2, Some e) \<Rightarrow> (w2, Some e)
           | (w2, completed2, None) \<Rightarrow>
               (case generatePrompts gp completed2 w2 of
                  (w3, Some e) \<Rightarrow> (w3, Some e)
                | (w3, None) \<Rightarrow>
                    (notifyProgress \<lparr>currentPhase = js ''Completed'',
                                     completedPhases = map ap_type AGENT_PHASES,
                                     totalPhases = length AGENT_PHASES, progress_error = None\<rparr>
                       (update_project_status CompletedProject (projectId orc) w3),
                     None))))"

definition runAllPhases :: "builtins \<Rightarrow> orchestrator \<Rightarrow> (PlanningPhase list \<Rightarrow> nat \<times> error option)
    \<Rightarrow> world \<Rightarrow> world \<times> error option" where
  "runAllPhases B orc gp w =
     (case select_project w (projectId orc) of
        (w1, Inl projErr) \<Rightarrow> (w1, Some projErr)
      | (w1, Inr None) \<Rightarrow> (w1, Some ProjectNotFound)
      | (w1, Inr (Some project)) \<Rightarrow>
          (case firstPass B orc (update_project_status Planning (projectId orc) w1) AGENT_PHASES [] of
             (w2, completed, Some e) \<Rightarrow> (w2, Some e)
           | (w2, completed, None) \<Rightarrow> afterFirstPass B orc gp w2 completed))"

text \<open>
  Stand-ins for the built-ins, to run the sources on concrete ASCII inputs: lower case
  of the letters A to Z, the decimal text of a natural number (and \<open>NaN\<close> for every
  other number, which no input below reaches), the reader of the JSON fragment, and a
  validator that asks for an object.
\<close>

definition ascii_lower :: "jstr \<Rightarrow> jstr" where
  "ascii_lower t = map (\<lambda>c. if 65 \<le> c \<and> c \<le> 90 then c + 32 else c) t"

definition number_text_ref :: "jsnum \<Rightarrow> jstr" where
  "number_text_ref n =
     (if n = Finite 0 then js ''0'' else if n = Finite 1 then js ''1'' else js ''NaN'')"

definition ajv_ref :: "jstr \<Rightarrow> json \<Rightarrow> AjvError list option" where
  "ajv_ref stage v =
     (case v of
        JObj m \<Rightarrow> if m = [] then Some [\<lparr>instancePath = [], err_message = js ''must have required property''\<rparr>]
                  else None
      | _ \<Rightarrow> Some [\<lparr>instancePath = [], err_message = js ''must be object''\<rparr>])"

definition ref_builtins :: builtins where
  "ref_builtins =
     \<lparr>toLowerCase = ascii_lower, numberToString = number_text_ref,
      JSON_parse = JSON_parse_ref, ajv_validate = ajv_ref\<rparr>"

section \<open>Example inputs\<close>

text \<open>A completed result of project \<open>p1\<close>, with its identifier, type, output and times.\<close>

definition completed_result :: "nat \<Rightarrow> jstr \<Rightarrow> json \<Rightarrow> nat \<Rightarrow> nat \<Rightarrow> PlanningPhase" where
  "completed_result i ty out t0 t1 =
     \<lparr>ph_id = i, project_id = js ''p1'', phase_type = ty, ph_output = out,
      ph_status = Completed, model_used = Some Anthropic,
      created_at = t0, completed_at = Some t1\<rparr>"

definition decision :: "string \<Rightarrow> string \<Rightarrow> json" where
  "decision k v =
     JObj [(js ''key'', JStr (js k)), (js ''value'', JStr (js v)), (js ''reason'', JStr (js ''because''))]"

definition with_decisions :: "json list \<Rightarrow> json" where
  "with_decisions ds = JObj [(js ''decisions'', JArr ds)]"

text \<open>
  The system stage decides \<open>auth\<close>, the data stage decides it again, and a re-run of the
  system stage, completed last, decides it a third time.
\<close>

definition ex_system_first :: PlanningPhase where
  "ex_system_first = completed_result 0 (js ''system'') (with_decisions [decision ''auth'' ''jwt'']) 1 2"

definition ex_data :: PlanningPhase where
  "ex_data = completed_result 1 (js ''data'') (with_decisions [decision ''auth'' ''firebase'']) 3 4"

definition ex_system_rerun :: PlanningPhase where
  "ex_system_rerun = completed_result 2 (js ''system'') (with_decisions [decision ''auth'' ''sessions'']) 5 6"

text \<open>
  \<open>declares k d\<close>: the decision \<open>d\<close> enters the ledger under the text key \<open>k\<close> (the
  empty text is falsy and never enters).
\<close>

definition declares :: "jstr \<Rightarrow> json \<Rightarrow> bool" where
  "declares k d = (truthy (JStr k) \<and> opt_get (Some d) (js ''key'') = Some (JStr k))"

text \<open>Every entry of a \<open>Map\<close> of the ledger sits under its own key.\<close>

definition keyed :: "(json \<times> LedgerEntry) list \<Rightarrow> bool" where
  "keyed m = list_all (\<lambda>p. entry_key (snd p) = Some (fst p)) m"

text \<open>
  A world in which the environment is set, every store operation is performed, every
  random number is 0, nothing has happened yet, and project \<open>p1\<close> exists: it is given
  the script of the backend, the status of the project and the rows of the table.
\<close>

definition world_with :: "(nat \<Rightarrow> fetch_outcome) \<Rightarrow> project_status \<Rightarrow> PlanningPhase list \<Rightarrow> world" where
  "world_with script st rows =
     \<lparr>env_ok = True, fetch_script = script, n_fetch = 0, random_script = (\<lambda>n. 0), n_random = 0,
      store_script = (\<lambda>n. True), n_store = 0,
      project_row = Some \<lparr>proj_id = js ''p1'', proj_status = st\<rparr>,
      planning_phases = rows, trace = []\<rparr>"

definition ex_orchestrator :: orchestrator where
  "ex_orchestrator = \<lparr>projectId = js ''p1'', provider = Anthropic\<rparr>"

definition ex_message :: message where
  "ex_message = \<lparr>msg_stage = js ''competitor'', msg_prompt = ContextualPrompt []\<rparr>"

text \<open>The backend is unreachable: every \<open>fetch\<close> throws.\<close>

definition ex_world_down :: world where
  "ex_world_down = world_with (\<lambda>n. FetchThrows (js ''network'')) Draft []"

text \<open>
  Results on which every rule of the checklist but the sixth holds: the strategy and
  the system stage both declare the decision key \<open>auth\<close>.
\<close>

definition ex_strategy_out :: json where
  "ex_strategy_out = JObj [(js ''decisions'', JArr [decision ''auth'' ''jwt''])]"

definition ex_system_out :: json where
  "ex_system_out =
     JObj [(js ''decisions'', JArr [decision ''auth'' ''sessions'']),
           (js ''nonFunctional'',
              JObj [(js ''performance'', JArr []), (js ''reliability'', JArr []), (js ''privacy'', JArr [])]),
           (js ''providersPolicies'',
              JObj [(js ''providers'', JArr []), (js ''quotas'', JStr (js ''none'')),
                    (js ''caching'', JStr (js ''none''))])]"

definition ex_api_out :: json where
  "ex_api_out = JObj [(js ''openApiYaml'', JStr (js ''cursor error''))]"

definition ex_ui_out :: json where
  "ex_ui_out = JObj [(js ''motion'', JObj [(js ''durations'', JObj [])]),
                     (js ''skeletons'', JArr [JStr (js ''card'')])]"

definition ex_prompts_out :: json where
  "ex_prompts_out =
     JObj [(js ''bolt'', JArr [JObj [(js ''title'', JStr (js ''Project Scaffolding''))]]),
           (js ''cursor'', JArr [JObj [(js ''title'', JStr (js ''Smoke Test + Release Checklist''))]])]"

definition ex_dup_results :: "PlanningPhase list" where
  "ex_dup_results =
     [completed_result 0 (js ''strategy'') ex_strategy_out 1 2,
      completed_result 1 (js ''system'') ex_system_out 3 4,
      completed_result 2 (js ''api'') ex_api_out 5 6,
      completed_result 3 (js ''ui'') ex_ui_out 7 8,
      completed_result 4 (js ''prompts'') ex_prompts_out 9 10]"

section \<open>Notions for the properties of the orchestrator\<close>

text \<open>
  Two worlds agree on what the program only reads (the environment and the three
  scripts) and on the project row.
\<close>

definition same_scripts :: "world \<Rightarrow> world \<Rightarrow> bool" where
  "same_scripts w w' =
     (env_ok w' = env_ok w \<and> fetch_script w' = fetch_script w \<and> random_script w' = random_script w
      \<and> store_script w' = store_script w \<and> project_row w' = project_row w)"

text \<open>
  Two worlds agree on the table of stage results and on the time.
\<close>

definition same_store :: "world \<Rightarrow> world \<Rightarrow> bool" where
  "same_store w w' = (n_store w' = n_store w \<and> planning_phases w' = planning_phases w)"

text \<open>
  A stage run, step by step: the world after the insert, the generation loop from
  there, and the update of the row.
\<close>

definition inserted_row :: "world \<Rightarrow> jstr \<Rightarrow> jstr \<Rightarrow> PlanningPhase" where
  "inserted_row w pid t =
     \<lparr>ph_id = fresh_id (planning_phases w), project_id = pid, phase_type = t,
      ph_output = JNull, ph_status = Processing, model_used = None,
      created_at = n_store w, completed_at = None\<rparr>"

definition after_insert :: "world \<Rightarrow> jstr \<Rightarrow> jstr \<Rightarrow> world" where
  "after_insert w pid t =
     w\<lparr>trace := trace w @ [EInvoke (Some t)],
       n_store := n_store w + 1,
       planning_phases := planning_phases w @ [inserted_row w pid t]\<rparr>"

definition completed_row :: "PlanningPhase \<Rightarrow> jsval \<Rightarrow> AIProvider \<Rightarrow> nat \<Rightarrow> PlanningPhase" where
  "completed_row r out prov t =
     r\<lparr>ph_output := (case out of None \<Rightarrow> ph_output r | Some v \<Rightarrow> v),
       ph_status := Completed, model_used := Some prov, completed_at := Some t\<rparr>"

text \<open>
  The plan of a pass over a list of request targets: the phase objects that the loop
  will hand to \<open>runPhase\<close>, in order, up to the first target that throws; and the
  type each of them logs.
\<close>

fun ref_type :: "phase_ref \<Rightarrow> jstr option" where
  "ref_type (Stage phase) = Some (ap_type phase)"
| "ref_type (InheritedMember m) = None"

fun requested_refs :: "(error + jstr) list \<Rightarrow> phase_ref list" where
  "requested_refs [] = []"
| "requested_refs (Inl e # targets) = []"
| "requested_refs (Inr ty # targets) =
     (case byType_lookup ty of
        None \<Rightarrow> requested_refs targets
      | Some ref \<Rightarrow> ref # requested_refs targets)"

text \<open>
  The guard of \<open>applyCriticRevisions\<close>: a critic result with a truthy output, and a
  request list that is not empty or a severity that is not below 0.5.
\<close>

definition critic_escalates :: "PlanningPhase list \<Rightarrow> bool" where
  "critic_escalates completed =
     (case find (\<lambda>p. phase_type p = js ''critic'') completed of
        None \<Rightarrow> False
      | Some critic \<Rightarrow>
          truthy (ph_output critic)
          \<and> (0 < length (critic_revs (ph_output critic)) \<or> \<not> lt_half (critic_severity (ph_output critic))))"

text \<open>
  The cycle the specification describes, from the critic output that the first pass
  left: the requested stages in the order listed, then the critic, then the composer.
\<close>

definition cycle_plan :: "builtins \<Rightarrow> PlanningPhase list \<Rightarrow> jstr option list" where
  "cycle_plan B completed =
     (case find (\<lambda>p. phase_type p = js ''critic'') completed of
        None \<Rightarrow> []
      | Some critic \<Rightarrow>
          if critic_escalates completed then
            map ref_type (requested_refs (map (critic_target B) (critic_revs (ph_output critic))))
            @ [Some (js ''critic''), Some (js ''composer'')]
          else [])"

text \<open>
  The generation call and the repair call of a stage, as \<open>callAI\<close> logs them.
\<close>

definition generate_request :: "orchestrator \<Rightarrow> AgentPhase \<Rightarrow> PlanningPhase list \<Rightarrow> request" where
  "generate_request orc phase prev =
     \<lparr>req_message = \<lparr>msg_stage = ap_type phase,
                       msg_prompt = ContextualPrompt (extractDecisionLedger prev)\<rparr>,
      req_provider = provider orc, req_temperature = 2 / 10, req_maxTokens = 4000\<rparr>"

definition repair_request :: "orchestrator \<Rightarrow> AgentPhase \<Rightarrow> jstr list \<Rightarrow> request" where
  "repair_request orc phase errs =
     \<lparr>req_message = \<lparr>msg_stage = ap_type phase, msg_prompt = RepairPrompt errs\<rparr>,
      req_provider = provider orc, req_temperature = 1 / 10, req_maxTokens = 4000\<rparr>"

text \<open>
  The repair calls the specification asks of one turn of the loop: one, when the
  generation call returns a response that parses to an output that fails validation
  and attempts remain; none otherwise.
\<close>

definition expected_repairs :: "builtins \<Rightarrow> orchestrator \<Rightarrow> world \<Rightarrow> AgentPhase \<Rightarrow> PlanningPhase list
    \<Rightarrow> nat \<Rightarrow> request list" where
  "expected_repairs B orc w phase prev attempt =
     (case snd (callAI w \<lparr>msg_stage = ap_type phase,
                          msg_prompt = ContextualPrompt (extractDecisionLedger prev)\<rparr>
                  (provider orc) generate_options) of
        Inl e \<Rightarrow> []
      | Inr response \<Rightarrow>
          (case parseJSONResponse (JSON_parse B) (content response) of
             Inl parseError \<Rightarrow> []
           | Inr out \<Rightarrow>
               if valid (validateJSON B (ap_type phase) out) then []
               else if attempt < maxRetries_phase - 1
               then [repair_request orc phase (errors (validateJSON B (ap_type phase) out))]
               else []))"

text \<open>
  The world after a stage run whose first generation response was valid: one insert,
  one call with one fetch, one update.
\<close>

definition stage_done :: "world \<Rightarrow> orchestrator \<Rightarrow> AgentPhase \<Rightarrow> PlanningPhase list \<Rightarrow> json \<Rightarrow> world" where
  "stage_done w orc phase prev out =
     w\<lparr>trace := trace w @ [EInvoke (Some (ap_type phase)), ECall (generate_request orc phase prev), EFetch],
       n_store := n_store w + 2,
       planning_phases := planning_phases w @
         [completed_row (inserted_row w (projectId orc) (ap_type phase)) (Some out) (provider orc) (n_store w + 1)],
       n_fetch := n_fetch w + 1\<rparr>"

text \<open>
  A backend that always answers with the same text, which reads as a critic output of
  severity 1 with a request for the system stage; critic results that ask for a re-run
  of the system stage with severity 0.9; and a world whose table holds the three
  results of the example.
\<close>

definition ex_reply_text :: jstr where
  \<open>ex_reply_text = js ''{"severityIndex":1,"revisionRequests":[{"targetPhase":"system"}]}''\<close>

definition ex_reply :: "nat \<Rightarrow> fetch_outcome" where
  "ex_reply n = FetchOk ex_reply_text (js ''model-1'')"

definition ex_out :: json where
  "ex_out =
     JObj [(js ''severityIndex'', JNum (Finite 1)),
           (js ''revisionRequests'', JArr [JObj [(js ''targetPhase'', JStr (js ''system''))]])]"

definition ex_critic_out :: json where
  "ex_critic_out =
     JObj [(js ''issues'', JArr []),
           (js ''severityIndex'', JNum (Finite (9 / 10))),
           (js ''revisionRequests'',
              JArr [JObj [(js ''targetPhase'', JStr (js ''System'')), (js ''request'', JStr (js ''fix auth''))]])]"

definition ex_cycle_results :: "PlanningPhase list" where
  "ex_cycle_results =
     [completed_result 10 (js ''system'') ex_out 1 2,
      completed_result 11 (js ''critic'') ex_critic_out 3 4,
      completed_result 12 (js ''composer'') ex_out 5 6]"

definition ex_world_cycle :: world where
  "ex_world_cycle = (world_with ex_reply Planning ex_cycle_results)\<lparr>n_store := 7\<rparr>"

text \<open>
  A stage by its type and name, and the row that a first-try run of a stage of type
  \<open>t\<close> started at time \<open>n\<close> returns in the example.
\<close>

definition stage_named :: "string \<Rightarrow> string \<Rightarrow> AgentPhase" where
  "stage_named t n = \<lparr>ap_type = js t, ap_name = js n\<rparr>"

definition ex_row :: "nat \<Rightarrow> string \<Rightarrow> nat \<Rightarrow> PlanningPhase" where
  "ex_row i t n =
     \<lparr>ph_id = i, project_id = js ''p1'', phase_type = js t, ph_output = ex_out,
      ph_status = Completed, model_used = Some Anthropic, created_at = n, completed_at = Some (n + 1)\<rparr>"

text \<open>
  The worlds after the re-runs of the system stage, the critic and the composer.
\<close>

definition ex_world_cycle1 :: world where
  "ex_world_cycle1 = stage_done ex_world_cycle ex_orchestrator (stage_named ''system'' ''System Architect'') ex_cycle_results ex_out"

definition ex_world_cycle2 :: world where
  "ex_world_cycle2 = stage_done ex_world_cycle1 ex_orchestrator (stage_named ''critic'' ''Critic/QA'')
          [ex_row 13 ''system'' 7, completed_result 11 (js ''critic'') ex_critic_out 3 4,
           completed_result 12 (js ''composer'') ex_out 5 6] ex_out"

definition ex_world_cycle3 :: world where
  "ex_world_cycle3 = stage_done ex_world_cycle2 ex_orchestrator (stage_named ''composer'' ''Composer'')
          [ex_row 13 ''system'' 7, ex_row 14 ''critic'' 9, completed_result 12 (js ''composer'') ex_out 5 6] ex_out"

text \<open>
  Critic results that ask for nothing, with severity 0.1, and the world that holds them.
\<close>

definition ex_quiet_out :: json where
  "ex_quiet_out =
     JObj [(js ''issues'', JArr []),
           (js ''severityIndex'', JNum (Finite (1 / 10))),
           (js ''revisionRequests'', JArr [])]"

definition ex_quiet_results :: "PlanningPhase list" where
  "ex_quiet_results =
     [completed_result 11 (js ''critic'') ex_quiet_out 3 4,
      completed_result 12 (js ''composer'') ex_out 5 6]"

definition ex_world_quiet :: world where
  "ex_world_quiet = (world_with ex_reply Planning ex_quiet_results)\<lparr>n_store := 7\<rparr>"

text \<open>
  Critic results whose first request names \<open>constructor\<close>, a text that is no stage type,
  and whose second request names the system stage; and the world that holds them.
\<close>

definition ex_proto_out :: json where
  "ex_proto_out =
     JObj [(js ''issues'', JArr []),
           (js ''severityIndex'', JNum (Finite (9 / 10))),
           (js ''revisionRequests'',
              JArr [JObj [(js ''targetPhase'', JStr (js ''constructor'')), (js ''request'', JStr (js ''fix auth''))],
                    JObj [(js ''targetPhase'', JStr (js ''system'')), (js ''request'', JStr (js ''fix auth''))]])]"

definition ex_proto_results :: "PlanningPhase list" where
  "ex_proto_results =
     [completed_result 10 (js ''system'') ex_out 1 2,
      completed_result 11 (js ''critic'') ex_proto_out 3 4,
      completed_result 12 (js ''composer'') ex_out 5 6]"

definition ex_world_proto :: world where
  "ex_world_proto = (world_with ex_reply Planning ex_proto_results)\<lparr>n_store := 7\<rparr>"


text \<open>
  The errors that the backend client throws: a missing environment, a response that is
  not ok, a timeout, a failed \<open>fetch\<close>, and the fallback of its last line.
\<close>

definition client_error :: "error \<Rightarrow> bool" where
  "client_error e =
     (case e of
        MissingEnv \<Rightarrow> True | ProxyError t \<Rightarrow> True | RequestTimeout \<Rightarrow> True
      | FetchFailed m \<Rightarrow> True | CallFailed \<Rightarrow> True | _ \<Rightarrow> False)"

text \<open>
  A backend that always answers with the empty object, which the validator of the
  examples rejects; a world with it in which the project is \<open>completed\<close> before the run;
  and a \<open>generatePrompts\<close> that writes nothing.
\<close>

definition ex_invalid_reply :: "nat \<Rightarrow> fetch_outcome" where
  "ex_invalid_reply n = FetchOk (js ''{}'') (js ''model-1'')"

definition ex_world_invalid :: world where
  "ex_world_invalid = world_with ex_invalid_reply CompletedProject []"

definition no_prompts :: "PlanningPhase list \<Rightarrow> nat \<times> error option" where
  "no_prompts phases = (0, None)"


text \<open>
  A ux result that chose \<open>firebase\<close>, and a backend whose answer has the members the
  api schema requires and a list \<open>entities\<close> that holds \<open>null\<close>.
\<close>

definition ex_ux_out :: json where
  "ex_ux_out = JObj [(js ''auth'', JObj [(js ''choice'', JStr (js ''firebase'')), (js ''rationale'', JStr (js ''sso''))])]"

definition ex_entities_text :: jstr where
  \<open>ex_entities_text = js ''{"openApiYaml":"x","webhooks":[],"rateLimits":"x","entities":[null]}''\<close>

definition ex_entities_out :: json where
  "ex_entities_out =
     JObj [(js ''openApiYaml'', JStr (js ''x'')), (js ''webhooks'', JArr []),
           (js ''rateLimits'', JStr (js ''x'')), (js ''entities'', JArr [JNull])]"

definition ex_entities_reply :: "nat \<Rightarrow> fetch_outcome" where
  "ex_entities_reply n = FetchOk ex_entities_text (js ''model-1'')"

definition ex_ux_results :: "PlanningPhase list" where
  "ex_ux_results = [completed_result 10 (js ''ux'') ex_ux_out 1 2]"

definition ex_world_entities :: world where
  "ex_world_entities = (world_with ex_entities_reply Planning ex_ux_results)\<lparr>n_store := 3\<rparr>"

text \<open>
  The stages that a trace shows were run, by type and in order.
\<close>

fun stage_runs :: "event list \<Rightarrow> jstr list" where
  "stage_runs [] = []"
| "stage_runs (EInvoke (Some t) # es) = t # stage_runs es"
| "stage_runs (e # es) = stage_runs es"






text \<open>
  A new project, before its first run.
\<close>

definition ex_world_full :: world where
  "ex_world_full = world_with ex_reply Draft []"





section \<open>Properties\<close>

subsection \<open>Evaluation rules\<close>

lemmas str_eval = js_def trim_def isWhiteSpace_def startsWith_def endsWith_def fence_def

lemmas parser_eval = stripFences_def extractFirstJsonBlock_def findFirstOf_def normalizeQuotes_def
  parseJSONResponse_def Let_def

lemmas reader_eval = JSON_parse_ref_def skip_ws_def read_number_def read_unsigned_def isDigit_def
  digits_value_def unescape_def

subsection \<open>The parser\<close>

text \<open>Each step of the code is the step of the specification.\<close>

lemma normalizeQuotes_spec: "normalizeQuotes t = spec_normalize t"
  by (simp add: normalizeQuotes_def spec_normalize_def straighten_def smart_double_quotes_def
      smart_single_quotes_def)

lemma startsWith_prefix: "startsWith t p = prefix p t"
proof
  assume "startsWith t p"
  then have "t = p @ drop (length p) t"
    by (metis append_take_drop_id startsWith_def)
  then show "prefix p t" by (metis prefixI)
next
  assume "prefix p t"
  then show "startsWith t p" by (auto simp: startsWith_def prefix_def)
qed

lemma endsWith_suffix: "endsWith t p = suffix p t"
proof
  assume "endsWith t p"
  then have "t = take (length t - length p) t @ p"
    by (metis append_take_drop_id endsWith_def)
  then show "suffix p t" by (metis suffixI)
next
  assume "suffix p t"
  then show "endsWith t p" by (auto simp: endsWith_def suffix_def)
qed

lemma fence_lengths: "length fence = 3" "length (fence @ js ''json'') = 7"
  by (simp_all add: fence_def js_def)

lemma stripFences_spec: "stripFences response = spec_unfence response"
  by (simp only: stripFences_def spec_unfence_def startsWith_prefix endsWith_suffix fence_lengths)

lemma indexOf_takeWhile:
  "indexOf t c = (if c \<in> set t then Some (length (takeWhile (\<lambda>x. x \<noteq> c) t)) else None)"
  by (induction t) auto

lemma findFirstOf_two:
  "findFirstOf t [a, b] =
     (if a \<in> set t \<or> b \<in> set t then Some (length (takeWhile (\<lambda>c. c \<noteq> a \<and> c \<noteq> b) t)) else None)"
proof (induction t)
  case Nil
  then show ?case by (simp add: findFirstOf_def)
next
  case (Cons x t)
  then show ?case
    by (auto simp: findFirstOf_def indexOf_takeWhile split: if_splits)
qed

lemma scanBlock_spec:
  "(escape \<longrightarrow> inString) \<Longrightarrow>
   scanBlock opn cls cs i depth inString escape =
     map_option (\<lambda>n. i + n - 1)
       (spec_span_length opn cls (if inString then if escape then Escaped else Quoted else Plain) depth cs)"
proof (induction cs arbitrary: i depth inString escape)
  case Nil
  then show ?case by simp
next
  case (Cons c cs)
  then show ?case
    by (auto simp: Let_def option.map_comp comp_def intro!: option.map_cong)
qed

lemma extractFirstJsonBlock_spec: "extractFirstJsonBlock t = spec_first_span t"
proof (cases "123 \<in> set t \<or> 91 \<in> set t")
  case False
  then have e: "dropWhile (\<lambda>c. c \<noteq> 123 \<and> c \<noteq> 91) t = []" by auto
  from False show ?thesis
    unfolding spec_first_span_def e by (simp add: extractFirstJsonBlock_def findFirstOf_two)
next
  case True
  let ?P = "\<lambda>c::nat. c \<noteq> 123 \<and> c \<noteq> 91"
  let ?i = "length (takeWhile ?P t)"
  from True have ne: "dropWhile ?P t \<noteq> []" by auto
  then obtain opn rest where d: "dropWhile ?P t = opn # rest" by (cases "dropWhile ?P t") auto
  have dr: "drop ?i t = opn # rest" using d by (simp add: dropWhile_eq_drop)
  have lt: "?i < length t" using ne by (metis dr drop_eq_Nil2 list.distinct(1) not_le_imp_less)
  have nth: "t ! ?i = opn" using dr lt by (metis hd_drop_conv_nth list.sel(1))
  show ?thesis
    using True unfolding spec_first_span_def d
    by (simp add: extractFirstJsonBlock_def findFirstOf_two dr nth
        scanBlock_spec option.map_comp comp_def Let_def split: option.splits)
qed

lemma spec_attempts_code:
  "spec_parse_attempts response =
     stripFences response #
       (case extractFirstJsonBlock (stripFences response) of
          Some blk \<Rightarrow> [blk, normalizeQuotes blk]
        | None \<Rightarrow> [normalizeQuotes (stripFences response)])"
  by (simp add: spec_parse_attempts_def stripFences_spec extractFirstJsonBlock_spec normalizeQuotes_spec Let_def
      split: option.splits)

lemma parse_refines_spec:
  "parseJSONResponse P response = spec_parse P response"
  by (simp add: parseJSONResponse_def spec_parse_def spec_attempts_code Let_def
      split: sum.splits option.splits)

text \<open>
  The parser fails exactly when every text it had to try was refused.
\<close>

lemma parse_fails_iff:
  "isl (parseJSONResponse P response) = list_all (\<lambda>t. isl (P t)) (spec_parse_attempts response)"
  by (auto simp: parseJSONResponse_def spec_attempts_code Let_def split: sum.splits option.splits)

text \<open>
  The two examples of the specification: in both the cleaned text is refused and the
  span is read. In the three texts that follow, the fence removal, the normalisation of
  the span and the normalisation of the whole text are what makes the text readable.
\<close>

lemma example_fenced_parses:
  "parseJSONResponse JSON_parse_ref example_fenced = Inr (JObj [(js ''a'', JNum (Finite 1))])"
  "map (\<lambda>t. isl (JSON_parse_ref t)) (spec_parse_attempts example_fenced) = [True, False, False]"
  by (simp_all add: example_fenced_def str_eval parser_eval reader_eval spec_attempts_code)

lemma example_curly_parses:
  "parseJSONResponse JSON_parse_ref example_curly = Inr (JObj [(js ''a'', JNum (Finite 1))])"
  "map (\<lambda>t. isl (JSON_parse_ref t)) (spec_parse_attempts example_curly) = [True, False, False]"
  by (simp_all add: example_curly_def str_eval parser_eval reader_eval spec_attempts_code)

lemma example_fenced_number_parses:
  "parseJSONResponse JSON_parse_ref example_fenced_number = Inr (JNum (Finite 7))"
  "JSON_parse_ref example_fenced_number = Inl (js ''SyntaxError'')"
  "extractFirstJsonBlock example_fenced_number = None"
  by (simp_all add: example_fenced_number_def str_eval parser_eval reader_eval)

lemma example_curly_keys_parses:
  "parseJSONResponse JSON_parse_ref example_curly_keys = Inr (JObj [(js ''a'', JNum (Finite 1))])"
  "map (\<lambda>t. isl (JSON_parse_ref t)) (spec_parse_attempts example_curly_keys) = [True, True, False]"
  by (simp_all add: example_curly_keys_def str_eval parser_eval reader_eval spec_attempts_code)

lemma example_curly_text_parses:
  "parseJSONResponse JSON_parse_ref example_curly_text = Inr (JStr (js ''ok''))"
  "map (\<lambda>t. isl (JSON_parse_ref t)) (spec_parse_attempts example_curly_text) = [True, False]"
  by (simp_all add: example_curly_text_def str_eval parser_eval reader_eval spec_attempts_code)

lemma example_quoted_brace_parses:
  \<open>extractFirstJsonBlock example_quoted_brace = Some (js ''{"a":"}'' @ [92, 34] @ js ''"}'')\<close>
  \<open>parseJSONResponse JSON_parse_ref example_quoted_brace = Inr (JObj [(js ''a'', JStr (js ''}"''))])\<close>
  by (simp_all add: example_quoted_brace_def str_eval parser_eval reader_eval)

text \<open>
  Claim C7. The parser follows the five steps of the specification, the first success
  winning: for every behaviour \<open>P\<close> of \<open>JSON.parse\<close> and every response it returns what
  the specification's list of attempts returns, where the fence removal, the span and
  the quote normalisation are the specification's own, and it fails exactly when every
  attempt of the list is refused. On the two example texts, read with the reference
  reader, it returns the object with the single member \<open>a\<close> of value 1; and each of the
  steps is needed: a fenced number is read only after the fences are removed, a member
  name in curly quotes only after the span is normalised, a text in curly quotes without
  brackets only after the whole text is normalised, and a brace and an escaped quote
  inside a string do not end the span.
\<close>

theorem parser_recovery:
  \<open>parseJSONResponse P response = spec_parse P response
   \<and> isl (parseJSONResponse P response) = list_all (\<lambda>t. isl (P t)) (spec_parse_attempts response)
   \<and> parseJSONResponse JSON_parse_ref example_fenced = Inr (JObj [(js ''a'', JNum (Finite 1))])
   \<and> parseJSONResponse JSON_parse_ref example_curly = Inr (JObj [(js ''a'', JNum (Finite 1))])
   \<and> parseJSONResponse JSON_parse_ref example_fenced_number = Inr (JNum (Finite 7))
   \<and> parseJSONResponse JSON_parse_ref example_curly_keys = Inr (JObj [(js ''a'', JNum (Finite 1))])
   \<and> parseJSONResponse JSON_parse_ref example_curly_text = Inr (JStr (js ''ok''))
   \<and> parseJSONResponse JSON_parse_ref example_quoted_brace = Inr (JObj [(js ''a'', JStr (js ''}"''))])\<close>
  using parse_refines_spec [of P response] parse_fails_iff [of P response]
  by (simp only: example_fenced_parses example_curly_parses example_fenced_number_parses
      example_curly_keys_parses example_curly_text_parses example_quoted_brace_parses simp_thms)

subsection \<open>The decision ledger\<close>

lemmas dyn_eval = truthyU_def opt_get_def get_def or_else_def arr_or_empty_def isArray_def isString_def
  typeofObject_def bindE_def jsString_def set_has_def set_add_def text_of_def

lemmas ex_results = completed_result_def decision_def with_decisions_def ex_system_first_def ex_data_def
  ex_system_rerun_def

lemma sameValueZero_str [simp]: "sameValueZero k' (JStr s) = (k' = JStr s)"
  by (cases k') auto

lemma sameValueZero_str_left [simp]: "sameValueZero (JStr s) k = (JStr s = k)"
  by simp

lemma find_append:
  "find P (xs @ ys) = (case find P xs of Some x \<Rightarrow> Some x | None \<Rightarrow> find P ys)"
  by (induction xs) auto

lemma find_map_set_str:
  "find (\<lambda>p. fst p = JStr s) (map_set k v m) =
     (if k = JStr s then Some (JStr s, v) else find (\<lambda>p. fst p = JStr s) m)"
  by (induction m) (auto)

lemma count_map_set_str:
  "length (filter (\<lambda>p. fst p = JStr s) (map_set k v m)) =
     (if k = JStr s \<and> length (filter (\<lambda>p. fst p = JStr s) m) = 0 then 1
      else length (filter (\<lambda>p. fst p = JStr s) m))"
  by (induction m) (auto)

lemma keyed_map_set:
  "keyed m \<Longrightarrow> opt_get (Some d) (js ''key'') = Some k \<Longrightarrow> keyed (map_set k (ledger_entry d) m)"
proof (induction m)
  case Nil
  then show ?case by (simp add: keyed_def ledger_entry_def)
next
  case (Cons p m)
  obtain k' e where p: "p = (k', e)" by (cases p)
  show ?case
  proof (cases "sameValueZero k' k")
    case True
    then have "k' = k" by (cases k') auto
    with Cons.prems p True show ?thesis by (simp add: keyed_def ledger_entry_def)
  next
    case False
    with Cons p show ?thesis by (simp add: keyed_def)
  qed
qed

lemma keyed_ledger_fold: "keyed m \<Longrightarrow> keyed (ledger_fold ds m)"
  by (induction ds arbitrary: m) (auto simp: keyed_map_set split: option.splits)

lemma find_ledger_fold:
  "find (\<lambda>p. fst p = JStr k) (ledger_fold ds m) =
     (case find (declares k) (rev ds) of
        Some d \<Rightarrow> Some (JStr k, ledger_entry d)
      | None \<Rightarrow> find (\<lambda>p. fst p = JStr k) m)"
proof (induction ds arbitrary: m)
  case Nil
  then show ?case by simp
next
  case (Cons d ds)
  show ?case
  proof (cases "declares k d")
    case True
    then have key: "opt_get (Some d) (js ''key'') = Some (JStr k)" and t: "truthy (JStr k)"
      by (simp_all add: declares_def)
    have "ledger_fold (d # ds) m = ledger_fold ds (map_set (JStr k) (ledger_entry d) m)"
      using key t by simp
    then show ?thesis
      using True by (simp add: Cons.IH find_map_set_str find_append split: option.splits)
  next
    case False
    show ?thesis
    proof (cases "opt_get (Some d) (js ''key'')")
      case None
      with False show ?thesis by (simp add: Cons.IH find_append split: option.splits)
    next
      case (Some k')
      show ?thesis
      proof (cases "truthy k'")
        case True
        with Some False have ne: "k' \<noteq> JStr k" by (auto simp: declares_def)
        have "ledger_fold (d # ds) m = ledger_fold ds (map_set k' (ledger_entry d) m)"
          using Some True by simp
        then show ?thesis
          using False ne by (simp add: Cons.IH find_map_set_str find_append split: option.splits)
      next
        case f: False
        with Some False show ?thesis by (simp add: Cons.IH find_append split: option.splits)
      qed
    qed
  qed
qed

lemma count_ledger_fold:
  "length (filter (\<lambda>p. fst p = JStr k) m) \<le> 1 \<Longrightarrow>
   length (filter (\<lambda>p. fst p = JStr k) (ledger_fold ds m)) \<le> 1"
proof (induction ds arbitrary: m)
  case Nil
  then show ?case by simp
next
  case (Cons d ds)
  show ?case
  proof (cases "opt_get (Some d) (js ''key'')")
    case None
    with Cons show ?thesis by simp
  next
    case (Some k')
    have "length (filter (\<lambda>p. fst p = JStr k) (map_set k' (ledger_entry d) m)) \<le> 1"
      using Cons.prems by (simp add: count_map_set_str)
    with Cons Some show ?thesis by simp
  qed
qed

lemma keyed_find:
  "keyed m \<Longrightarrow> find (\<lambda>e. entry_key e = Some c) (map snd m) = map_option snd (find (\<lambda>p. fst p = c) m)"
  by (induction m) (auto simp: keyed_def)

lemma keyed_filter:
  "keyed m \<Longrightarrow> length (filter (\<lambda>e. entry_key e = Some c) (map snd m)) = length (filter (\<lambda>p. fst p = c) m)"
  by (induction m) (auto simp: keyed_def)

text \<open>
  What the fold computes: the ledger holds at most one entry for a text key, and that
  entry is the last declaration of the key in the order of the results list (and,
  within one result, of its decisions).
\<close>

lemma ledger_last_in_list_wins:
  "length (filter (\<lambda>e. entry_key e = Some (JStr k)) (extractDecisionLedger results)) \<le> 1
   \<and> find (\<lambda>e. entry_key e = Some (JStr k)) (extractDecisionLedger results)
       = map_option ledger_entry (find (declares k) (rev (concat (map decisions_of results))))"
proof -
  let ?ds = "concat (map decisions_of results)"
  have k: "keyed (ledger_fold ?ds [])"
    by (rule keyed_ledger_fold) (simp add: keyed_def)
  have c: "length (filter (\<lambda>p. fst p = JStr k) (ledger_fold ?ds [])) \<le> 1"
    by (rule count_ledger_fold) simp
  have f: "find (\<lambda>p. fst p = JStr k) (ledger_fold ?ds []) =
           (case find (declares k) (rev ?ds) of Some d \<Rightarrow> Some (JStr k, ledger_entry d) | None \<Rightarrow> None)"
    by (simp add: find_ledger_fold split: option.splits)
  have "length (filter (\<lambda>e. entry_key e = Some (JStr k)) (map snd (ledger_fold ?ds []))) \<le> 1"
    using c by (simp only: keyed_filter [OF k])
  moreover have "find (\<lambda>e. entry_key e = Some (JStr k)) (map snd (ledger_fold ?ds []))
                 = map_option ledger_entry (find (declares k) (rev ?ds))"
    by (simp only: keyed_find [OF k] f) (simp split: option.splits)
  ultimately show ?thesis
    unfolding extractDecisionLedger_def by blast
qed


text \<open>
  Claim C4. The entry of the most recently completed stage should win, also after a
  re-run has replaced an earlier result; the source says so itself where it folds the
  ledger (\<open>De-dupe by key, keep last (most recent)\<close>). After the re-run of the system
  stage has been written back at the place of its first result, the system stage is
  the most recently completed (time 6 against 4), yet the ledger keeps the data stage's
  older value for \<open>auth\<close>. Folding in the order of completion keeps the re-run's value.
\<close>

theorem ledger_keeps_older_entry_after_rerun:
  "replaceResult (js ''system'') ex_system_rerun [ex_system_first, ex_data] = [ex_system_rerun, ex_data]
   \<and> completed_at ex_system_rerun = Some 6 \<and> completed_at ex_data = Some 4
   \<and> map entry_value (extractDecisionLedger [ex_system_rerun, ex_data]) = [Some (JStr (js ''firebase''))]
   \<and> map entry_value (spec_ledger_by_completion [ex_system_rerun, ex_data]) = [Some (JStr (js ''sessions''))]"
  by (simp add: ex_results extractDecisionLedger_def spec_ledger_by_completion_def completion_time_def
      decisions_of_def ledger_entry_def dyn_eval js_def)

subsection \<open>The quality checklist\<close>

lemmas rule_defs = rule_auth_def rule_motion_def rule_api_def rule_nonFunctional_def rule_providers_def
  rule_ledger_def rule_prompts_def rule_competitor_def

lemma rule_fails_iff:
  "(fst (snd (rule_auth c a)) = []) = passed (fst (rule_auth c a))"
  "(fst (snd (rule_motion ui)) = []) = passed (fst (rule_motion ui))"
  "(fst (snd (rule_api api)) = []) = passed (fst (rule_api api))"
  "(fst (snd (rule_nonFunctional sys)) = []) = passed (fst (rule_nonFunctional sys))"
  "(fst (snd (rule_providers sys)) = []) = passed (fst (rule_providers sys))"
  "(fst (snd (rule_prompts B pr)) = []) = passed (fst (rule_prompts B pr))"
  "(fst (snd (rule_competitor co st)) = []) = passed (fst (rule_competitor co st))"
  "fst (snd (rule_ledger phases)) = []"
  by (auto simp: rule_defs Let_def)

lemma collect_rules_status:
  "(cl_status (collect_rules rs) = Pass) = list_all (\<lambda>r. fst (snd r) = []) rs"
  by (auto simp: collect_rules_def list_all_iff)

lemma collect_rules_items: "cl_items (collect_rules rs) = map fst rs"
  by (simp add: collect_rules_def)

lemma checklist_result_shape:
  assumes "runQualityChecklist B phases = Inr r"
  obtains c a ui api sys1 sys2 pr co st where
    "r = collect_rules [rule_auth c a, rule_motion ui, rule_api api, rule_nonFunctional sys1,
                        rule_providers sys2, rule_ledger phases, rule_prompts B pr,
                        rule_competitor co st]"
  using assms
  by (auto simp: runQualityChecklist_def Let_def bindE_def split: sum.splits)

text \<open>
  What the engine does: its result has the eight items, and its status is \<open>pass\<close>
  exactly when the seven rules other than the ledger rule (item 5, counting from 0)
  hold. The ledger rule never adds to \<open>failItems\<close>.
\<close>

lemma checklist_status_ignores_ledger:
  assumes "runQualityChecklist B phases = Inr r"
  shows "length (cl_items r) = 8"
    and "(cl_status r = Pass) =
         (passed (cl_items r ! 0) \<and> passed (cl_items r ! 1) \<and> passed (cl_items r ! 2)
          \<and> passed (cl_items r ! 3) \<and> passed (cl_items r ! 4) \<and> passed (cl_items r ! 6)
          \<and> passed (cl_items r ! 7))"
proof -
  from assms obtain c a ui api sys1 sys2 pr co st where
    r: "r = collect_rules [rule_auth c a, rule_motion ui, rule_api api, rule_nonFunctional sys1,
                           rule_providers sys2, rule_ledger phases, rule_prompts B pr,
                           rule_competitor co st]"
    by (rule checklist_result_shape)
  show "length (cl_items r) = 8"
    by (simp add: r collect_rules_items)
  show "(cl_status r = Pass) =
         (passed (cl_items r ! 0) \<and> passed (cl_items r ! 1) \<and> passed (cl_items r ! 2)
          \<and> passed (cl_items r ! 3) \<and> passed (cl_items r ! 4) \<and> passed (cl_items r ! 6)
          \<and> passed (cl_items r ! 7))"
    by (simp add: r collect_rules_status collect_rules_items rule_fails_iff)
qed


lemma ex_dup_byType:
  "outputsByType ex_dup_results =
     [js ''strategy'' \<mapsto> ex_strategy_out, js ''system'' \<mapsto> ex_system_out, js ''api'' \<mapsto> ex_api_out,
      js ''ui'' \<mapsto> ex_ui_out, js ''prompts'' \<mapsto> ex_prompts_out]"
  by (simp add: outputsByType_def ex_dup_results_def completed_result_def or_else_def
      ex_strategy_out_def ex_system_out_def ex_api_out_def ex_ui_out_def ex_prompts_out_def)

lemma ex_dup_lookups:
  "outputsByType ex_dup_results (js ''ux'') = None"
  "outputsByType ex_dup_results (js ''system'') = Some ex_system_out"
  "outputsByType ex_dup_results (js ''data'') = None"
  "outputsByType ex_dup_results (js ''api'') = Some ex_api_out"
  "outputsByType ex_dup_results (js ''ui'') = Some ex_ui_out"
  "outputsByType ex_dup_results (js ''prompts'') = Some ex_prompts_out"
  "outputsByType ex_dup_results (js ''strategy'') = Some ex_strategy_out"
  "outputsByType ex_dup_results (js ''competitor'') = None"
  by (simp_all add: ex_dup_byType js_def)

lemma ex_dup_auth: "auth_consistency ref_builtins (JStr []) ex_system_out (JObj []) = Inr True"
  by (simp add: auth_consistency_def ex_system_out_def decision_def dyn_eval authKeyMatches_def
      authConsistent_of_def ref_builtins_def ascii_lower_def str_eval)

lemma ex_dup_rules:
  "snd (rule_auth (JStr []) True) = ([], [])" "passed (fst (rule_auth (JStr []) True))"
  "snd (rule_motion ex_ui_out) = ([], [])" "passed (fst (rule_motion ex_ui_out))"
  "snd (rule_api ex_api_out) = ([], [])" "passed (fst (rule_api ex_api_out))"
  "snd (rule_nonFunctional ex_system_out) = ([], [])" "passed (fst (rule_nonFunctional ex_system_out))"
  "snd (rule_providers ex_system_out) = ([], [])" "passed (fst (rule_providers ex_system_out))"
  "snd (rule_ledger ex_dup_results) = ([], [])" "\<not> passed (fst (rule_ledger ex_dup_results))"
  "snd (rule_prompts ref_builtins ex_prompts_out) = ([], [])" "passed (fst (rule_prompts ref_builtins ex_prompts_out))"
  "snd (rule_competitor (JObj []) ex_strategy_out) = ([], [])" "passed (fst (rule_competitor (JObj []) ex_strategy_out))"
  by (simp_all add: rule_defs Let_def dyn_eval str_eval ex_ui_out_def ex_api_out_def ex_system_out_def
      ex_prompts_out_def ex_strategy_out_def ex_dup_results_def completed_result_def decision_def
      decisions_of_def promptTitle_def ref_builtins_def ascii_lower_def)

lemma ex_dup_truthy:
  "truthy ex_system_out" "truthy ex_api_out" "truthy ex_ui_out" "truthy ex_prompts_out"
  "truthy ex_strategy_out"
  by (simp_all add: ex_system_out_def ex_api_out_def ex_ui_out_def ex_prompts_out_def ex_strategy_out_def)

text \<open>
  Claim C3. The overall status should be \<open>fail\<close> whenever a rule fails, the ledger
  rule in particular. On the results above the ledger rule finds the duplicate key
  \<open>auth\<close> and its item does not pass, yet the engine returns \<open>pass\<close> with no failed
  item: the sixth rule is the only one that pushes nothing to \<open>failItems\<close>.
\<close>

theorem checklist_passes_with_duplicate_key:
  "map_sum id (\<lambda>r. (cl_status r, map passed (cl_items r), failItems r))
     (runQualityChecklist ref_builtins ex_dup_results)
   = Inr (Pass, [True, True, True, True, True, False, True, True], [])"
  by (simp add: runQualityChecklist_def Let_def ex_dup_lookups ex_dup_truthy or_else_def opt_get_def
      ex_dup_auth bindE_def collect_rules_def ex_dup_rules)


subsection \<open>The backend client\<close>

declare callAI_loop.simps [simp del] generation_loop.simps [simp del]

lemma invocations_append [simp]: "invocations (xs @ ys) = invocations xs @ invocations ys"
  by (induction xs rule: invocations.induct) auto

lemma calls_append [simp]: "calls (xs @ ys) = calls xs @ calls ys"
  by (induction xs rule: calls.induct) auto

lemma sleeps_append [simp]: "sleeps (xs @ ys) = sleeps xs @ sleeps ys"
  by (induction xs rule: sleeps.induct) auto

text \<open>The turns of the retry loop of \<open>callAI\<close>, one rule for each way through its body.\<close>

lemma callAI_loop_done:
  "\<not> int attempt < maxRetries \<Longrightarrow>
   callAI_loop w maxRetries attempt lastError =
     (w, Inl (case lastError of Some e \<Rightarrow> e | None \<Rightarrow> CallFailed))"
  by (simp add: callAI_loop.simps)

lemma callAI_loop_ok:
  "int attempt < maxRetries \<Longrightarrow> fetch_script w (n_fetch w) = FetchOk c m \<Longrightarrow>
   callAI_loop w maxRetries attempt lastError =
     (w\<lparr>n_fetch := n_fetch w + 1, trace := trace w @ [EFetch]\<rparr>, Inr \<lparr>content = c, model = m\<rparr>)"
  by (subst callAI_loop.simps) (simp add: do_fetch_def)

lemma callAI_loop_retry:
  "int attempt < maxRetries - 1 \<Longrightarrow> \<not> is_ok (fetch_script w (n_fetch w)) \<Longrightarrow>
   callAI_loop w maxRetries attempt lastError =
     callAI_loop
       (w\<lparr>n_fetch := n_fetch w + 1, n_random := n_random w + 1,
          trace := trace w @ [EFetch, ESleep (backoffMs attempt (random_script w (n_random w)))]\<rparr>)
       maxRetries (attempt + 1) (Some (fetch_error (fetch_script w (n_fetch w))))"
  by (subst callAI_loop.simps)
     (auto simp: do_fetch_def next_random_def log_event_def is_ok_def split: fetch_outcome.splits)

lemma callAI_loop_last:
  "int attempt < maxRetries \<Longrightarrow> \<not> int attempt < maxRetries - 1 \<Longrightarrow>
   \<not> is_ok (fetch_script w (n_fetch w)) \<Longrightarrow>
   callAI_loop w maxRetries attempt lastError =
     (w\<lparr>n_fetch := n_fetch w + 1, trace := trace w @ [EFetch]\<rparr>,
      Inl (fetch_error (fetch_script w (n_fetch w))))"
  by (subst callAI_loop.simps)
     (auto simp: do_fetch_def is_ok_def callAI_loop_done split: fetch_outcome.splits)

lemmas callAI_loop_steps = callAI_loop_done callAI_loop_ok callAI_loop_retry callAI_loop_last

text \<open>
  The delay before the retry after attempt \<open>a\<close> (counting from 0) is \<open>(a + 1) * 1000\<close>
  plus a jitter below 250: each delay is the previous one plus 1000, and no bound holds
  for all attempts.
\<close>

lemma backoff_bounds:
  assumes "0 \<le> r" "r < 1"
  shows "(attempt + 1) * 1000 \<le> backoffMs attempt r" "backoffMs attempt r < (attempt + 1) * 1000 + 250"
proof -
  have "\<lfloor>r * 250\<rfloor> < 250" using assms by (simp add: floor_less_iff)
  moreover have "0 \<le> \<lfloor>r * 250\<rfloor>" using assms by simp
  ultimately have "nat \<lfloor>r * 250\<rfloor> < 250" by linarith
  then show "(attempt + 1) * 1000 \<le> backoffMs attempt r"
    "backoffMs attempt r < (attempt + 1) * 1000 + 250"
    by (simp_all add: backoffMs_def)
qed

lemma backoff_linear: "backoffMs (Suc attempt) r = backoffMs attempt r + 1000"
  by (simp add: backoffMs_def)

lemma backoff_unbounded: "cap < backoffMs cap r"
  by (simp add: backoffMs_def)

lemma ex_world_down_fields:
  "env_ok ex_world_down" "fetch_script ex_world_down = (\<lambda>n. FetchThrows (js ''network''))"
  "n_fetch ex_world_down = 0" "random_script ex_world_down = (\<lambda>n. 0)" "n_random ex_world_down = 0"
  "trace ex_world_down = []"
  by (simp_all add: ex_world_down_def world_with_def)

text \<open>
  Claim C8. The delays should grow exponentially with the attempt number, up to a cap.
  With four tries allowed and an unreachable backend, the client sleeps 1000, 2000 and
  3000 milliseconds (the jitter being 0 here): the third delay is the second plus 1000,
  not its double, and by \<open>backoff_unbounded\<close> there is no cap.
\<close>

theorem backoff_delays_linear:
  "sleeps (trace (fst (callAI ex_world_down ex_message Anthropic
      \<lparr>opt_temperature = None, opt_maxTokens = None, opt_retries = Some 4\<rparr>))) = [1000, 2000, 3000]"
  by (simp add: callAI_def Let_def ex_world_down_fields log_event_def callAI_loop_steps is_ok_def
      fetch_error_def backoffMs_def)

subsection \<open>Stage runs and passes\<close>

lemma same_scripts_refl [simp]: "same_scripts w w"
  by (simp add: same_scripts_def)

lemma same_scripts_trans: "same_scripts a b \<Longrightarrow> same_scripts b c \<Longrightarrow> same_scripts a c"
  by (simp add: same_scripts_def)

lemma same_store_refl [simp]: "same_store w w"
  by (simp add: same_store_def)

lemma same_store_trans: "same_store a b \<Longrightarrow> same_store b c \<Longrightarrow> same_store a c"
  by (simp add: same_store_def)

lemma callAI_loop_frame:
  "same_scripts w (fst (callAI_loop w maxRetries attempt lastError))
   \<and> same_store w (fst (callAI_loop w maxRetries attempt lastError))
   \<and> invocations (trace (fst (callAI_loop w maxRetries attempt lastError))) = invocations (trace w)
   \<and> calls (trace (fst (callAI_loop w maxRetries attempt lastError))) = calls (trace w)"
proof (induction "nat (maxRetries - int attempt)" arbitrary: w attempt lastError)
  case 0
  then have "\<not> int attempt < maxRetries" by simp
  then show ?case by (simp add: callAI_loop_done)
next
  case (Suc n)
  then have lt: "int attempt < maxRetries" by linarith
  show ?case
  proof (cases "is_ok (fetch_script w (n_fetch w))")
    case True
    then obtain c m where "fetch_script w (n_fetch w) = FetchOk c m"
      by (auto simp: is_ok_def split: fetch_outcome.splits)
    with lt show ?thesis
      by (simp add: callAI_loop_ok same_scripts_def same_store_def)
  next
    case bad: False
    show ?thesis
    proof (cases "int attempt < maxRetries - 1")
      case False
      with lt bad show ?thesis
        by (simp add: callAI_loop_last same_scripts_def same_store_def)
    next
      case more: True
      let ?w2 = "w\<lparr>n_fetch := n_fetch w + 1, n_random := n_random w + 1,
                   trace := trace w @ [EFetch, ESleep (backoffMs attempt (random_script w (n_random w)))]\<rparr>"
      let ?le = "Some (fetch_error (fetch_script w (n_fetch w)))"
      have step: "callAI_loop w maxRetries attempt lastError = callAI_loop ?w2 maxRetries (attempt + 1) ?le"
        using more bad by (rule callAI_loop_retry)
      have "n = nat (maxRetries - int (attempt + 1))"
        using Suc.hyps(2) by linarith
      from Suc.hyps(1) [OF this, of ?w2 ?le] show ?thesis
        unfolding step by (simp add: same_scripts_def same_store_def)
    qed
  qed
qed

lemma callAI_frame:
  "same_scripts w (fst (callAI w msg prov opts))"
  "same_store w (fst (callAI w msg prov opts))"
  "invocations (trace (fst (callAI w msg prov opts))) = invocations (trace w)"
  using callAI_loop_frame [of "log_event (ECall \<lparr>req_message = msg, req_provider = prov,
      req_temperature = (case opt_temperature opts of None \<Rightarrow> 2 / 10 | Some t \<Rightarrow> t),
      req_maxTokens = (case opt_maxTokens opts of None \<Rightarrow> 4000 | Some n \<Rightarrow> n)\<rparr>) w"
      "case opt_retries opts of None \<Rightarrow> 3 | Some n \<Rightarrow> n" 0 None]
  by (auto simp: callAI_def Let_def log_event_def same_scripts_def same_store_def)

text \<open>A call of the client adds exactly one call to the trace: its own.\<close>

lemma callAI_calls:
  "calls (trace (fst (callAI w msg prov opts))) =
     calls (trace w) @ [\<lparr>req_message = msg, req_provider = prov,
        req_temperature = (case opt_temperature opts of None \<Rightarrow> 2 / 10 | Some t \<Rightarrow> t),
        req_maxTokens = (case opt_maxTokens opts of None \<Rightarrow> 4000 | Some n \<Rightarrow> n)\<rparr>]"
  using callAI_loop_frame [of "log_event (ECall \<lparr>req_message = msg, req_provider = prov,
      req_temperature = (case opt_temperature opts of None \<Rightarrow> 2 / 10 | Some t \<Rightarrow> t),
      req_maxTokens = (case opt_maxTokens opts of None \<Rightarrow> 4000 | Some n \<Rightarrow> n)\<rparr>) w"
      "case opt_retries opts of None \<Rightarrow> 3 | Some n \<Rightarrow> n" 0 None]
  by (auto simp: callAI_def Let_def log_event_def)

text \<open>When the first \<open>fetch\<close> succeeds, the call returns its content, without a sleep.\<close>

lemma callAI_first_ok:
  assumes "env_ok w" "fetch_script w (n_fetch w) = FetchOk c m"
    and "opt_retries opts = None"
  shows "callAI w msg prov opts =
     (w\<lparr>n_fetch := n_fetch w + 1,
        trace := trace w @ [ECall \<lparr>req_message = msg, req_provider = prov,
          req_temperature = (case opt_temperature opts of None \<Rightarrow> 2 / 10 | Some t \<Rightarrow> t),
          req_maxTokens = (case opt_maxTokens opts of None \<Rightarrow> 4000 | Some n \<Rightarrow> n)\<rparr>, EFetch]\<rparr>,
      Inr \<lparr>content = c, model = m\<rparr>)"
  using assms by (simp add: callAI_def Let_def log_event_def callAI_loop_ok)

lemma repair_step_frame:
  "same_scripts w (fst (repair_step B orc w phase out errs))"
  "same_store w (fst (repair_step B orc w phase out errs))"
  "invocations (trace (fst (repair_step B orc w phase out errs))) = invocations (trace w)"
  using callAI_frame [where w = w and msg = "\<lparr>msg_stage = ap_type phase, msg_prompt = RepairPrompt errs\<rparr>"
      and prov = "provider orc" and opts = repair_options]
  by (auto simp: repair_step_def split: prod.splits sum.splits)

lemma attempt_step_frame:
  "same_scripts w (fst (attempt_step B orc w phase prev ov attempt))"
  "same_store w (fst (attempt_step B orc w phase prev ov attempt))"
  "invocations (trace (fst (attempt_step B orc w phase prev ov attempt))) = invocations (trace w)"
proof -
  let ?msg = "\<lparr>msg_stage = ap_type phase, msg_prompt = ContextualPrompt (extractDecisionLedger prev)\<rparr>"
  obtain w1 r where c: "callAI w ?msg (provider orc) generate_options = (w1, r)"
    by (cases "callAI w ?msg (provider orc) generate_options")
  have f: "same_scripts w w1" "same_store w w1" "invocations (trace w1) = invocations (trace w)"
    using callAI_frame [where w = w and msg = ?msg and prov = "provider orc" and opts = generate_options] c
    by simp_all
  have g: "same_scripts w1 (fst (repair_step B orc w1 phase out errs))"
    "same_store w1 (fst (repair_step B orc w1 phase out errs))"
    "invocations (trace (fst (repair_step B orc w1 phase out errs))) = invocations (trace w1)"
    for out errs
    by (rule repair_step_frame)+
  show "same_scripts w (fst (attempt_step B orc w phase prev ov attempt))"
    using f(1) g(1) by (auto simp: attempt_step_def c split: sum.splits option.splits intro: same_scripts_trans)
  show "same_store w (fst (attempt_step B orc w phase prev ov attempt))"
    using f(2) g(2) by (auto simp: attempt_step_def c split: sum.splits option.splits intro: same_store_trans)
  show "invocations (trace (fst (attempt_step B orc w phase prev ov attempt))) = invocations (trace w)"
    using f(3) g(3) by (auto simp: attempt_step_def c split: sum.splits option.splits)
qed

text \<open>The turns of the loop of \<open>runPhase\<close>.\<close>

lemma generation_loop_done:
  "\<not> attempt < maxRetries_phase \<Longrightarrow> generation_loop B orc w phase prev ov attempt = (w, Inr ov)"
  by (simp add: generation_loop.simps)

lemma generation_loop_break:
  "attempt < maxRetries_phase \<Longrightarrow> attempt_step B orc w phase prev ov attempt = (w1, Break out) \<Longrightarrow>
   generation_loop B orc w phase prev ov attempt = (w1, Inr (Some out))"
  by (subst generation_loop.simps) simp

lemma generation_loop_throw:
  "attempt < maxRetries_phase \<Longrightarrow> attempt_step B orc w phase prev ov attempt = (w1, Throw e) \<Longrightarrow>
   generation_loop B orc w phase prev ov attempt = (w1, Inl e)"
  by (subst generation_loop.simps) simp

lemma generation_loop_continue:
  "attempt < maxRetries_phase \<Longrightarrow> attempt_step B orc w phase prev ov attempt = (w1, Continue ov') \<Longrightarrow>
   generation_loop B orc w phase prev ov attempt = generation_loop B orc w1 phase prev ov' (attempt + 1)"
  by (subst generation_loop.simps) simp

lemma generation_loop_frame:
  "same_scripts w (fst (generation_loop B orc w phase prev ov attempt))
   \<and> same_store w (fst (generation_loop B orc w phase prev ov attempt))
   \<and> invocations (trace (fst (generation_loop B orc w phase prev ov attempt))) = invocations (trace w)"
proof (induction "maxRetries_phase - attempt" arbitrary: w ov attempt)
  case 0
  then have "\<not> attempt < maxRetries_phase" by simp
  then show ?case by (simp add: generation_loop_done)
next
  case (Suc n)
  then have lt: "attempt < maxRetries_phase" by linarith
  obtain w1 r where st: "attempt_step B orc w phase prev ov attempt = (w1, r)"
    by (cases "attempt_step B orc w phase prev ov attempt")
  have f: "same_scripts w w1" "same_store w w1" "invocations (trace w1) = invocations (trace w)"
    using attempt_step_frame [where w = w and B = B and orc = orc and phase = phase and prev = prev
        and ov = ov and attempt = attempt] st by simp_all
  show ?case
  proof (cases r)
    case (Break out)
    with lt st f show ?thesis by (simp add: generation_loop_break)
  next
    case (Throw e)
    with lt st f show ?thesis by (simp add: generation_loop_throw)
  next
    case (Continue ov')
    have "n = maxRetries_phase - (attempt + 1)" using Suc.hyps(2) by linarith
    from Suc.hyps(1) [OF this, of w1 ov'] f show ?thesis
      using lt st Continue
      by (auto simp: generation_loop_continue intro: same_scripts_trans same_store_trans)
  qed
qed

text \<open>The loop cannot end without a validated output or an error: its last turn never continues.\<close>

lemma attempt_step_last_turn:
  "\<not> attempt < maxRetries_phase - 1 \<Longrightarrow> snd (attempt_step B orc w phase prev ov attempt) \<noteq> Continue ov'"
  by (auto simp: attempt_step_def split: prod.splits sum.splits option.splits)

lemma fresh_id_gt: "r \<in> set rows \<Longrightarrow> ph_id r < fresh_id rows"
  by (induction rows) (auto simp: fresh_id_def)

lemma find_fresh:
  "find (\<lambda>r. ph_id r = fresh_id rows) (rows @ [row\<lparr>ph_id := fresh_id rows\<rparr>]) = Some (row\<lparr>ph_id := fresh_id rows\<rparr>)"
proof -
  have "find (\<lambda>r. ph_id r = fresh_id rows) rows = None"
    using fresh_id_gt [of _ rows] by (fastforce simp: find_None_iff)
  then show ?thesis by (simp add: find_append)
qed

lemma insert_phase_eq:
  "insert_phase w pid (Some t) =
     (if store_script w (n_store w) then
        (w\<lparr>n_store := n_store w + 1,
           planning_phases := planning_phases w @
             [\<lparr>ph_id = fresh_id (planning_phases w), project_id = pid, phase_type = t,
               ph_output = JNull, ph_status = Processing, model_used = None,
               created_at = n_store w, completed_at = None\<rparr>]\<rparr>,
         Inr \<lparr>ph_id = fresh_id (planning_phases w), project_id = pid, phase_type = t,
               ph_output = JNull, ph_status = Processing, model_used = None,
               created_at = n_store w, completed_at = None\<rparr>)
      else (w\<lparr>n_store := n_store w + 1\<rparr>, Inl StoreError))"
  "insert_phase w pid None = (w\<lparr>n_store := n_store w + 1\<rparr>, Inl StoreError)"
  by (simp_all add: insert_phase_def store_op_def Let_def)

lemma complete_phase_eq:
  "complete_phase w i out prov =
     (if store_script w (n_store w) then
        (case find (\<lambda>r. ph_id r = i) (planning_phases w) of
           None \<Rightarrow> (w\<lparr>n_store := n_store w + 1\<rparr>, Inl StoreError)
         | Some r \<Rightarrow>
             (w\<lparr>n_store := n_store w + 1,
                planning_phases := update_row i
                  (\<lambda>r. r\<lparr>ph_output := (case out of None \<Rightarrow> ph_output r | Some v \<Rightarrow> v),
                          ph_status := Completed, model_used := Some prov,
                          completed_at := Some (n_store w)\<rparr>) (planning_phases w)\<rparr>,
              Inr (r\<lparr>ph_output := (case out of None \<Rightarrow> ph_output r | Some v \<Rightarrow> v),
                     ph_status := Completed, model_used := Some prov,
                     completed_at := Some (n_store w)\<rparr>)))
      else (w\<lparr>n_store := n_store w + 1\<rparr>, Inl StoreError))"
  by (simp add: complete_phase_def store_op_def Let_def split: option.splits)

lemma fail_phase_eq:
  "fail_phase i w =
     w\<lparr>n_store := n_store w + 1,
       planning_phases := (if store_script w (n_store w)
                           then update_row i (\<lambda>r. r\<lparr>ph_status := Failed\<rparr>) (planning_phases w)
                           else planning_phases w)\<rparr>"
  by (simp add: fail_phase_def store_op_def Let_def)

lemma update_project_status_eq:
  "update_project_status st pid w =
     w\<lparr>n_store := n_store w + 1,
       project_row := (if store_script w (n_store w) then
                         (case project_row w of
                            None \<Rightarrow> None
                          | Some p \<Rightarrow> if proj_id p = pid then Some (p\<lparr>proj_status := st\<rparr>) else Some p)
                       else project_row w)\<rparr>"
  by (simp add: update_project_status_def store_op_def Let_def)

lemma select_project_eq:
  "select_project w pid =
     (w\<lparr>n_store := n_store w + 1\<rparr>,
      if store_script w (n_store w) then
        Inr (case project_row w of None \<Rightarrow> None | Some p \<Rightarrow> if proj_id p = pid then Some p else None)
      else Inl StoreError)"
  by (simp add: select_project_def store_op_def Let_def)

lemmas store_eqs = insert_phase_eq complete_phase_eq fail_phase_eq update_project_status_eq select_project_eq

lemma update_row_fresh:
  "update_row (fresh_id rows) f (rows @ [row]) =
     rows @ [if ph_id row = fresh_id rows then f row else row]"
proof -
  have "map (\<lambda>r. if ph_id r = fresh_id rows then f r else r) rows = rows"
    using fresh_id_gt [of _ rows] by (intro map_idI) fastforce
  then show ?thesis by (simp add: update_row_def)
qed

lemma insert_logged:
  "store_script w (n_store w) \<Longrightarrow>
   insert_phase (log_event (EInvoke (Some t)) w) pid (Some t) = (after_insert w pid t, Inr (inserted_row w pid t))"
  by (simp add: insert_phase_eq log_event_def after_insert_def inserted_row_def)

lemma runPhase_insert_refused:
  "\<not> store_script w (n_store w) \<Longrightarrow>
   runPhase B orc w phase prev =
     (w\<lparr>trace := trace w @ [EInvoke (Some (ap_type phase))], n_store := n_store w + 1\<rparr>, Inl StoreError)"
  by (simp add: runPhase_def insert_phase_eq log_event_def)

lemma runPhase_failed:
  assumes "store_script w (n_store w)"
    and "generation_loop B orc (after_insert w (projectId orc) (ap_type phase)) phase prev None 0 = (w2, Inl e)"
  shows "runPhase B orc w phase prev = (fail_phase (fresh_id (planning_phases w)) w2, Inl e)"
  by (simp add: runPhase_def insert_logged [OF assms(1)] assms(2) inserted_row_def)

lemma after_insert_rows:
  assumes "generation_loop B orc (after_insert w pid t) phase prev ov a = (w2, r)"
  shows "planning_phases w2 = planning_phases w @ [inserted_row w pid t]"
    and "n_store w2 = n_store w + 1"
    and "invocations (trace w2) = invocations (trace w) @ [Some t]"
    and "same_scripts w w2"
  using generation_loop_frame [of "after_insert w pid t" B orc phase prev ov a] assms
  by (simp_all add: same_store_def same_scripts_def after_insert_def)

lemma complete_inserted:
  assumes "planning_phases w2 = rows @ [inserted_row w pid t]" "rows = planning_phases w"
    and "store_script w2 (n_store w2)"
  shows "complete_phase w2 (fresh_id rows) out prov =
     (w2\<lparr>n_store := n_store w2 + 1,
         planning_phases := rows @ [completed_row (inserted_row w pid t) out prov (n_store w2)]\<rparr>,
      Inr (completed_row (inserted_row w pid t) out prov (n_store w2)))"
proof -
  have id: "ph_id (inserted_row w pid t) = fresh_id rows"
    by (simp add: inserted_row_def assms(2))
  have fnd: "find (\<lambda>r. ph_id r = fresh_id rows) (rows @ [inserted_row w pid t]) = Some (inserted_row w pid t)"
    using find_fresh [of rows "inserted_row w pid t"] id
    by (simp add: inserted_row_def assms(2))
  show ?thesis
    by (simp add: complete_phase_eq assms(1,3) fnd update_row_fresh id completed_row_def)
qed

lemma runPhase_completed:
  assumes "store_script w (n_store w)"
    and "generation_loop B orc (after_insert w (projectId orc) (ap_type phase)) phase prev None 0 = (w2, Inr out)"
    and "store_script w2 (n_store w2)"
  shows "runPhase B orc w phase prev =
     (w2\<lparr>n_store := n_store w2 + 1,
         planning_phases := planning_phases w @
           [completed_row (inserted_row w (projectId orc) (ap_type phase)) out (provider orc) (n_store w2)]\<rparr>,
      Inr (completed_row (inserted_row w (projectId orc) (ap_type phase)) out (provider orc) (n_store w2)))"
proof -
  have rows: "planning_phases w2 = planning_phases w @ [inserted_row w (projectId orc) (ap_type phase)]"
    using assms(2) by (rule after_insert_rows)
  have id: "ph_id (inserted_row w (projectId orc) (ap_type phase)) = fresh_id (planning_phases w)"
    by (simp add: inserted_row_def)
  show ?thesis
    by (simp add: runPhase_def insert_logged [OF assms(1)] assms(2) id
        complete_inserted [OF rows refl assms(3)])
qed

lemma runPhase_update_refused:
  assumes "store_script w (n_store w)"
    and "generation_loop B orc (after_insert w (projectId orc) (ap_type phase)) phase prev None 0 = (w2, Inr out)"
    and "\<not> store_script w2 (n_store w2)"
  shows "runPhase B orc w phase prev =
     (fail_phase (fresh_id (planning_phases w)) (w2\<lparr>n_store := n_store w2 + 1\<rparr>), Inl StoreError)"
  by (simp add: runPhase_def insert_logged [OF assms(1)] assms(2,3) inserted_row_def complete_phase_eq)

text \<open>What every stage run does to the world, however it ends.\<close>

lemma runPhase_world:
  "invocations (trace (fst (runPhase B orc w phase prev))) = invocations (trace w) @ [Some (ap_type phase)]"
  "same_scripts w (fst (runPhase B orc w phase prev))"
  "n_store w < n_store (fst (runPhase B orc w phase prev))"
proof -
  let ?P = "\<lambda>w'. invocations (trace w') = invocations (trace w) @ [Some (ap_type phase)]
                \<and> same_scripts w w' \<and> n_store w < n_store w'"
  have "?P (fst (runPhase B orc w phase prev))"
  proof (cases "store_script w (n_store w)")
    case False
    then show ?thesis by (simp add: runPhase_insert_refused same_scripts_def)
  next
    case True
    obtain w2 g where g: "generation_loop B orc (after_insert w (projectId orc) (ap_type phase)) phase prev None 0 = (w2, g)"
      by (cases "generation_loop B orc (after_insert w (projectId orc) (ap_type phase)) phase prev None 0")
    note f = after_insert_rows [OF g]
    show ?thesis
    proof (cases g)
      case (Inl e)
      with True g f show ?thesis
        by (simp add: runPhase_failed fail_phase_eq same_scripts_def)
    next
      case (Inr out)
      show ?thesis
      proof (cases "store_script w2 (n_store w2)")
        case ok: True
        with True g f Inr show ?thesis
          by (simp add: runPhase_completed same_scripts_def)
      next
        case False
        with True g f Inr show ?thesis
          by (simp add: runPhase_update_refused fail_phase_eq same_scripts_def)
      qed
    qed
  qed
  then show "invocations (trace (fst (runPhase B orc w phase prev))) = invocations (trace w) @ [Some (ap_type phase)]"
    "same_scripts w (fst (runPhase B orc w phase prev))"
    "n_store w < n_store (fst (runPhase B orc w phase prev))"
    by simp_all
qed

text \<open>
  A stage run that returns has added one row to the table, the row it returns, and
  has left every other row as it was. The row is completed and has the type of the stage.
\<close>

lemma runPhase_returns:
  assumes "runPhase B orc w phase prev = (w', Inr r)"
  shows "planning_phases w' = planning_phases w @ [r]"
    and "phase_type r = ap_type phase" and "project_id r = projectId orc" and "ph_status r = Completed"
proof -
  have ok: "store_script w (n_store w)"
    using assms by (cases "store_script w (n_store w)") (simp_all add: runPhase_insert_refused)
  obtain w2 g where g: "generation_loop B orc (after_insert w (projectId orc) (ap_type phase)) phase prev None 0 = (w2, g)"
    by (cases "generation_loop B orc (after_insert w (projectId orc) (ap_type phase)) phase prev None 0")
  obtain out where out: "g = Inr out"
    using assms ok g by (cases g) (simp_all add: runPhase_failed)
  have ok2: "store_script w2 (n_store w2)"
    using assms ok g out by (cases "store_script w2 (n_store w2)") (simp_all add: runPhase_update_refused)
  have eq: "runPhase B orc w phase prev =
     (w2\<lparr>n_store := n_store w2 + 1,
         planning_phases := planning_phases w @
           [completed_row (inserted_row w (projectId orc) (ap_type phase)) out (provider orc) (n_store w2)]\<rparr>,
      Inr (completed_row (inserted_row w (projectId orc) (ap_type phase)) out (provider orc) (n_store w2)))"
    using ok g ok2 unfolding out by (rule runPhase_completed)
  from assms eq show "planning_phases w' = planning_phases w @ [r]"
    and "phase_type r = ap_type phase" and "project_id r = projectId orc" and "ph_status r = Completed"
    by (auto simp: completed_row_def inserted_row_def)
qed

lemma rerun_invocations:
  "invocations (trace (fst (rerun B orc w ref cp))) = invocations (trace w) @ [ref_type ref]"
proof (cases ref)
  case (Stage phase)
  then show ?thesis
    using runPhase_world(1) [of B orc w phase cp]
    by (auto simp: rerun_def split: prod.splits sum.splits)
next
  case (InheritedMember m)
  then show ?thesis
    by (simp add: rerun_def insert_phase_eq log_event_def)
qed

lemma rerun_requested_trace:
  assumes "rerun_requested B orc w ts cp = (w', cp', res)"
  shows "\<exists>n\<le>length (requested_refs ts).
           invocations (trace w') = invocations (trace w) @ map ref_type (take n (requested_refs ts))
           \<and> (res = None \<longrightarrow> n = length (requested_refs ts))
           \<and> (n = 0 \<and> res \<noteq> None \<longrightarrow> (\<exists>e. res = Some e \<and> Inl e \<in> set ts))"
  using assms
proof (induction ts arbitrary: w cp)
  case Nil
  then show ?case by simp
next
  case (Cons t ts)
  show ?case
  proof (cases t)
    case (Inl e)
    with Cons.prems show ?thesis by auto
  next
    case (Inr ty)
    show ?thesis
    proof (cases "byType_lookup ty")
      case None
      with Cons.prems Inr have "rerun_requested B orc w ts cp = (w', cp', res)" by simp
      from Cons.IH [OF this] None Inr show ?thesis by auto
    next
      case (Some ref)
      obtain w1 cp1 r1 where r: "rerun B orc w ref cp = (w1, cp1, r1)"
        by (cases "rerun B orc w ref cp")
      have tr: "invocations (trace w1) = invocations (trace w) @ [ref_type ref]"
        using rerun_invocations [of B orc w ref cp] r by simp
      show ?thesis
      proof (cases r1)
        case (Some e)
        with Cons.prems Inr \<open>byType_lookup ty = Some ref\<close> r
        have "w' = w1" "res = Some e" by simp_all
        with tr Inr \<open>byType_lookup ty = Some ref\<close> show ?thesis
          by (intro exI [of _ 1]) simp
      next
        case None
        with Cons.prems Inr \<open>byType_lookup ty = Some ref\<close> r
        have "rerun_requested B orc w1 ts cp1 = (w', cp', res)" by simp
        from Cons.IH [OF this] obtain n where n: "n \<le> length (requested_refs ts)"
          "invocations (trace w') = invocations (trace w1) @ map ref_type (take n (requested_refs ts))"
          "res = None \<longrightarrow> n = length (requested_refs ts)"
          by blast
        with tr Inr \<open>byType_lookup ty = Some ref\<close> show ?thesis
          by (intro exI [of _ "Suc n"]) simp
      qed
    qed
  qed
qed

lemma phasesByType_critic:
  "byType_lookup (js ''critic'') = Some (Stage \<lparr>ap_type = js ''critic'', ap_name = js ''Critic/QA''\<rparr>)"
  "byType_lookup (js ''composer'') = Some (Stage \<lparr>ap_type = js ''composer'', ap_name = js ''Composer''\<rparr>)"
  by (simp_all add: byType_lookup_def phasesByType_def AGENT_PHASES_def js_def)

lemma rerun_named_invocations:
  "invocations (trace (fst (rerun_named B orc w (js ''critic'') cp))) = invocations (trace w) @ [Some (js ''critic'')]"
  "invocations (trace (fst (rerun_named B orc w (js ''composer'') cp))) = invocations (trace w) @ [Some (js ''composer'')]"
  by (simp_all add: rerun_named_def phasesByType_critic rerun_invocations)

lemma critic_quiet:
  "\<not> critic_escalates completed \<Longrightarrow> applyCriticRevisions B orc w completed = (w, completed, None)"
  by (auto simp: applyCriticRevisions_def critic_escalates_def split: option.splits)

lemma critic_target_error: "critic_target B r = Inl e \<Longrightarrow> e = TypeError"
  by (auto simp: critic_target_def bindE_def get_def split: option.splits json.splits sum.splits)

lemma applyCriticRevisions_trace:
  assumes "applyCriticRevisions B orc w completed = (w', completed', res)"
  shows "\<exists>n\<le>length (cycle_plan B completed).
           invocations (trace w') = invocations (trace w) @ take n (cycle_plan B completed)
           \<and> (res = None \<longrightarrow> n = length (cycle_plan B completed))
           \<and> (critic_escalates completed \<and> n = 0 \<longrightarrow> res = Some TypeError)"
proof (cases "critic_escalates completed")
  case False
  then have "cycle_plan B completed = []"
    by (simp add: cycle_plan_def split: option.splits)
  with False assms show ?thesis by (simp add: critic_quiet)
next
  case True
  then obtain critic where c: "find (\<lambda>p. phase_type p = js ''critic'') completed = Some critic"
    and t: "truthy (ph_output critic)"
    and g: "\<not> (length (critic_revs (ph_output critic)) = 0 \<and> lt_half (critic_severity (ph_output critic)))"
    by (auto simp: critic_escalates_def split: option.splits)
  let ?ts = "map (critic_target B) (critic_revs (ph_output critic))"
  let ?refs = "map ref_type (requested_refs ?ts)"
  have plan: "cycle_plan B completed = ?refs @ [Some (js ''critic''), Some (js ''composer'')]"
    using True c by (simp add: cycle_plan_def)
  obtain w1 cp1 r1 where l: "rerun_requested B orc w ?ts completed = (w1, cp1, r1)"
    by (cases "rerun_requested B orc w ?ts completed")
  from rerun_requested_trace [OF l] obtain n where n: "n \<le> length (requested_refs ?ts)"
    "invocations (trace w1) = invocations (trace w) @ map ref_type (take n (requested_refs ?ts))"
    "r1 = None \<longrightarrow> n = length (requested_refs ?ts)"
    "n = 0 \<and> r1 \<noteq> None \<longrightarrow> (\<exists>e. r1 = Some e \<and> Inl e \<in> set ?ts)"
    by blast
  show ?thesis
  proof (cases r1)
    case (Some e)
    with assms c t g l have eq: "w' = w1" "res = Some e"
      by (auto simp: applyCriticRevisions_def)
    have "n = 0 \<longrightarrow> e = TypeError"
      using n(4) Some by (auto dest: critic_target_error [OF sym])
    with eq n plan show ?thesis
      by (intro exI [of _ n]) (simp add: take_map)
  next
    case None
    with n have full: "invocations (trace w1) = invocations (trace w) @ ?refs" by simp
    obtain w2 cp2 r2 where c2: "rerun_named B orc w1 (js ''critic'') cp1 = (w2, cp2, r2)"
      by (cases "rerun_named B orc w1 (js ''critic'') cp1")
    have tr2: "invocations (trace w2) = invocations (trace w1) @ [Some (js ''critic'')]"
      using rerun_named_invocations(1) [of B orc w1 cp1] c2 by simp
    show ?thesis
    proof (cases r2)
      case (Some e)
      with assms c t g l None c2 have "w' = w2" "res = Some e"
        by (auto simp: applyCriticRevisions_def)
      with tr2 full plan show ?thesis
        by (intro exI [of _ "Suc (length ?refs)"]) simp
    next
      case n2: None
      obtain w3 cp3 r3 where c3: "rerun_named B orc w2 (js ''composer'') cp2 = (w3, cp3, r3)"
        by (cases "rerun_named B orc w2 (js ''composer'') cp2")
      have tr3: "invocations (trace w3) = invocations (trace w2) @ [Some (js ''composer'')]"
        using rerun_named_invocations(2) [of B orc w2 cp2] c3 by simp
      from assms c t g l None c2 n2 c3 have "w' = w3"
        by (auto simp: applyCriticRevisions_def)
      with tr3 tr2 full plan show ?thesis
        by (intro exI [of _ "length (cycle_plan B completed)"]) simp
    qed
  qed
qed

lemma cycle_plan_hd:
  "critic_escalates completed \<Longrightarrow> cycle_plan B completed \<noteq> []"
  by (auto simp: cycle_plan_def critic_escalates_def split: option.splits)

lemma repair_step_calls:
  "calls (trace (fst (repair_step B orc w phase out errs))) = calls (trace w) @ [repair_request orc phase errs]"
  using callAI_calls [where w = w and msg = "\<lparr>msg_stage = ap_type phase, msg_prompt = RepairPrompt errs\<rparr>"
      and prov = "provider orc" and opts = repair_options]
  by (auto simp: repair_step_def repair_request_def repair_options_def split: prod.splits sum.splits)

lemma attempt_step_calls:
  "calls (trace (fst (attempt_step B orc w phase prev ov attempt))) =
     calls (trace w) @ generate_request orc phase prev # expected_repairs B orc w phase prev attempt"
proof -
  let ?msg = "\<lparr>msg_stage = ap_type phase, msg_prompt = ContextualPrompt (extractDecisionLedger prev)\<rparr>"
  obtain w1 r where c: "callAI w ?msg (provider orc) generate_options = (w1, r)"
    by (cases "callAI w ?msg (provider orc) generate_options")
  have tr: "calls (trace w1) = calls (trace w) @ [generate_request orc phase prev]"
    using callAI_calls [where w = w and msg = ?msg and prov = "provider orc" and opts = generate_options] c
    by (simp add: generate_request_def generate_options_def)
  show ?thesis
    using tr
    by (auto simp: attempt_step_def expected_repairs_def c repair_step_calls
        split: sum.splits option.splits)
qed

lemma attempt_step_first_try:
  assumes "env_ok w" "fetch_script w (n_fetch w) = FetchOk c m"
    and "parseJSONResponse (JSON_parse B) c = Inr out"
    and "valid (validateJSON B (ap_type phase) out)"
    and "crossPhaseChecks B (ap_type phase) out prev = None"
  shows "attempt_step B orc w phase prev ov attempt =
     (w\<lparr>n_fetch := n_fetch w + 1,
        trace := trace w @ [ECall (generate_request orc phase prev), EFetch]\<rparr>, Break out)"
  using assms
  by (simp add: attempt_step_def callAI_first_ok generate_options_def generate_request_def)

lemma runPhase_first_try:
  assumes "env_ok w" "fetch_script w (n_fetch w) = FetchOk c m"
    and "parseJSONResponse (JSON_parse B) c = Inr out"
    and "valid (validateJSON B (ap_type phase) out)"
    and "crossPhaseChecks B (ap_type phase) out prev = None"
    and "store_script w (n_store w)" "store_script w (n_store w + 1)"
  shows "runPhase B orc w phase prev =
     (stage_done w orc phase prev out,
      Inr (completed_row (inserted_row w (projectId orc) (ap_type phase)) (Some out) (provider orc) (n_store w + 1)))"
proof -
  let ?w1 = "after_insert w (projectId orc) (ap_type phase)"
  let ?w2 = "?w1\<lparr>n_fetch := n_fetch ?w1 + 1,
                trace := trace ?w1 @ [ECall (generate_request orc phase prev), EFetch]\<rparr>"
  have st: "attempt_step B orc ?w1 phase prev None 0 = (?w2, Break out)"
    by (rule attempt_step_first_try [OF _ _ assms(3,4,5)]) (simp_all add: after_insert_def assms(1,2))
  have g: "generation_loop B orc ?w1 phase prev None 0 = (?w2, Inr (Some out))"
    by (rule generation_loop_break [OF _ st]) (simp add: maxRetries_phase_def)
  have ok2: "store_script ?w2 (n_store ?w2)"
    using assms(7) by (simp add: after_insert_def)
  show ?thesis
    unfolding runPhase_completed [OF assms(6) g ok2]
    by (simp add: stage_done_def after_insert_def)
qed

lemma stage_done_fields [simp]:
  "env_ok (stage_done w orc phase prev out) = env_ok w"
  "fetch_script (stage_done w orc phase prev out) = fetch_script w"
  "n_fetch (stage_done w orc phase prev out) = n_fetch w + 1"
  "random_script (stage_done w orc phase prev out) = random_script w"
  "n_random (stage_done w orc phase prev out) = n_random w"
  "store_script (stage_done w orc phase prev out) = store_script w"
  "n_store (stage_done w orc phase prev out) = n_store w + 2"
  "project_row (stage_done w orc phase prev out) = project_row w"
  "planning_phases (stage_done w orc phase prev out) = planning_phases w @
     [completed_row (inserted_row w (projectId orc) (ap_type phase)) (Some out) (provider orc) (n_store w + 1)]"
  "trace (stage_done w orc phase prev out) =
     trace w @ [EInvoke (Some (ap_type phase)), ECall (generate_request orc phase prev), EFetch]"
  by (simp_all add: stage_done_def)

lemma ex_world_cycle_fields [simp]:
  "env_ok ex_world_cycle" "fetch_script ex_world_cycle = ex_reply" "n_fetch ex_world_cycle = 0"
  "store_script ex_world_cycle = (\<lambda>n. True)" "n_store ex_world_cycle = 7"
  "planning_phases ex_world_cycle = ex_cycle_results" "trace ex_world_cycle = []"
  "project_row ex_world_cycle = Some \<lparr>proj_id = js ''p1'', proj_status = Planning\<rparr>"
  by (simp_all add: ex_world_cycle_def world_with_def)

lemma ex_reply_parses:
  "parseJSONResponse (JSON_parse ref_builtins) ex_reply_text = Inr ex_out"
  by (simp add: ref_builtins_def ex_out_def ex_reply_text_def str_eval parser_eval reader_eval)

lemma ex_out_valid: "valid (validateJSON ref_builtins ty ex_out)"
  by (simp add: validateJSON_def ref_builtins_def ajv_ref_def ex_out_def)

lemma ex_lookup_system:
  "byType_lookup (js ''system'') = Some (Stage (stage_named ''system'' ''System Architect''))"
  by (simp add: byType_lookup_def phasesByType_def AGENT_PHASES_def js_def stage_named_def)

lemma ex_lookup_critic:
  "byType_lookup (js ''critic'') = Some (Stage (stage_named ''critic'' ''Critic/QA''))"
  "byType_lookup (js ''composer'') = Some (Stage (stage_named ''composer'' ''Composer''))"
  by (simp_all add: byType_lookup_def phasesByType_def AGENT_PHASES_def js_def stage_named_def)

lemma ex_critic_reads:
  "find (\<lambda>p. phase_type p = js ''critic'') ex_cycle_results = Some (completed_result 11 (js ''critic'') ex_critic_out 3 4)"
  "truthy ex_critic_out"
  "critic_revs ex_critic_out =
     [JObj [(js ''targetPhase'', JStr (js ''System'')), (js ''request'', JStr (js ''fix auth''))]]"
  "critic_severity ex_critic_out = Finite (9 / 10)"
  by (simp_all add: ex_cycle_results_def completed_result_def ex_critic_out_def critic_revs_def
      critic_severity_def dyn_eval js_def)

lemma ex_critic_target:
  "critic_target ref_builtins (JObj [(js ''targetPhase'', JStr (js ''System'')), (js ''request'', JStr (js ''fix auth''))])
     = Inr (js ''system'')"
  by (simp add: critic_target_def dyn_eval ref_builtins_def ascii_lower_def js_def)

lemma fresh_id_simps:
  "fresh_id [] = 0"
  "fresh_id (r # rows) = max (Suc (ph_id r)) (fresh_id rows)"
  "fresh_id (rows @ rows') = max (fresh_id rows) (fresh_id rows')"
  by (induction rows) (auto simp: fresh_id_def)

lemma fresh_ids: "fresh_id ex_cycle_results = 13"
  by (simp add: fresh_id_def ex_cycle_results_def completed_result_def)

lemma js_eq_iff: "(js a = js b) = (a = b)"
  by (simp add: js_def inj_map_eq_map inj_on_def)

lemma opt_get_None [simp]: "opt_get None k = None"
  by (simp add: opt_get_def)

lemma example_row_types [simp]:
  "ap_type (stage_named t n) = js t"
  "phase_type (ex_row i t k) = js t"
  "phase_type (completed_result i ty out a b) = ty"
  "ph_output (completed_result i ty out a b) = out"
  "ph_output (ex_row i t k) = ex_out"
  by (simp_all add: stage_named_def ex_row_def completed_result_def)

lemma crossPhaseChecks_composer:
  assumes "outputsByType prev (js ''ux'') = None"
    and "opt_get (outputsByType prev (js ''system'')) (js ''decisions'') = None"
  shows "crossPhaseChecks B (js ''composer'') out prev = None"
  by (simp add: crossPhaseChecks_def cross_uxAuth_def assms Let_def truthyU_def)

lemma crossPhaseChecks_other:
  "crossPhaseChecks B (js ''system'') out prev = None"
  "crossPhaseChecks B (js ''critic'') out prev = None"
  by (simp_all add: crossPhaseChecks_def js_def)

lemma ex_step1:
  "runPhase ref_builtins ex_orchestrator ex_world_cycle (stage_named ''system'' ''System Architect'') ex_cycle_results
     = (ex_world_cycle1, Inr (ex_row 13 ''system'' 7))"
proof -
  have cp: "crossPhaseChecks ref_builtins (js ''system'') ex_out ex_cycle_results = None"
    by (simp add: crossPhaseChecks_def js_def)
  have "runPhase ref_builtins ex_orchestrator ex_world_cycle (stage_named ''system'' ''System Architect'') ex_cycle_results
     = (stage_done ex_world_cycle ex_orchestrator (stage_named ''system'' ''System Architect'') ex_cycle_results ex_out,
        Inr (completed_row (inserted_row ex_world_cycle (projectId ex_orchestrator)
               (ap_type (stage_named ''system'' ''System Architect''))) (Some ex_out)
               (provider ex_orchestrator) (n_store ex_world_cycle + 1)))"
    by (rule runPhase_first_try [where c = ex_reply_text and m = "js ''model-1''"])
       (simp_all add: ex_reply_def ex_reply_parses ex_out_valid stage_named_def cp)
  then show ?thesis
    by (simp add: ex_world_cycle1_def completed_row_def inserted_row_def ex_row_def ex_orchestrator_def stage_named_def
        fresh_ids)
qed

lemma ex_replace1:
  "replaceResult (js ''system'') (ex_row 13 ''system'' 7) ex_cycle_results =
     [ex_row 13 ''system'' 7, completed_result 11 (js ''critic'') ex_critic_out 3 4,
      completed_result 12 (js ''composer'') ex_out 5 6]"
  by (simp add: ex_cycle_results_def completed_result_def)

lemma ex_replace2:
  "replaceResult (js ''critic'') (ex_row 14 ''critic'' 9)
     [ex_row 13 ''system'' 7, completed_result 11 (js ''critic'') ex_critic_out 3 4,
      completed_result 12 (js ''composer'') ex_out 5 6] =
     [ex_row 13 ''system'' 7, ex_row 14 ''critic'' 9, completed_result 12 (js ''composer'') ex_out 5 6]"
  by (simp add: completed_result_def ex_row_def js_def)

lemma ex_replace3:
  "replaceResult (js ''composer'') (ex_row 15 ''composer'' 11)
     [ex_row 13 ''system'' 7, ex_row 14 ''critic'' 9, completed_result 12 (js ''composer'') ex_out 5 6] =
     [ex_row 13 ''system'' 7, ex_row 14 ''critic'' 9, ex_row 15 ''composer'' 11]"
  by (simp add: completed_result_def ex_row_def js_def)

lemma ex_step2:
  "runPhase ref_builtins ex_orchestrator ex_world_cycle1 (stage_named ''critic'' ''Critic/QA'')
     [ex_row 13 ''system'' 7, completed_result 11 (js ''critic'') ex_critic_out 3 4,
      completed_result 12 (js ''composer'') ex_out 5 6]
     = (ex_world_cycle2, Inr (ex_row 14 ''critic'' 9))"
proof -
  let ?cp = "[ex_row 13 ''system'' 7, completed_result 11 (js ''critic'') ex_critic_out 3 4,
              completed_result 12 (js ''composer'') ex_out 5 6]"
  have cp: "crossPhaseChecks ref_builtins (js ''critic'') ex_out ?cp = None"
    by (simp add: crossPhaseChecks_def js_def)
  have "runPhase ref_builtins ex_orchestrator ex_world_cycle1 (stage_named ''critic'' ''Critic/QA'') ?cp
     = (stage_done ex_world_cycle1 ex_orchestrator (stage_named ''critic'' ''Critic/QA'') ?cp ex_out,
        Inr (completed_row (inserted_row ex_world_cycle1 (projectId ex_orchestrator)
               (ap_type (stage_named ''critic'' ''Critic/QA''))) (Some ex_out)
               (provider ex_orchestrator) (n_store ex_world_cycle1 + 1)))"
    by (rule runPhase_first_try [where c = ex_reply_text and m = "js ''model-1''"])
       (simp_all add: ex_world_cycle1_def ex_reply_def ex_reply_parses ex_out_valid stage_named_def crossPhaseChecks_other)
  then show ?thesis
    by (simp add: ex_world_cycle2_def ex_world_cycle1_def completed_row_def inserted_row_def ex_row_def ex_orchestrator_def
        stage_named_def fresh_ids fresh_id_simps)
qed

lemma ex_step3:
  "runPhase ref_builtins ex_orchestrator ex_world_cycle2 (stage_named ''composer'' ''Composer'')
     [ex_row 13 ''system'' 7, ex_row 14 ''critic'' 9, completed_result 12 (js ''composer'') ex_out 5 6]
     = (ex_world_cycle3, Inr (ex_row 15 ''composer'' 11))"
proof -
  let ?cp = "[ex_row 13 ''system'' 7, ex_row 14 ''critic'' 9, completed_result 12 (js ''composer'') ex_out 5 6]"
  have byT: "outputsByType ?cp (js ''ux'') = None" "outputsByType ?cp (js ''system'') = Some ex_out"
    by (simp_all add: outputsByType_def ex_row_def completed_result_def or_else_def ex_out_def js_eq_iff)
  have d: "opt_get (Some ex_out) (js ''decisions'') = None"
    by (simp add: opt_get_def ex_out_def js_eq_iff)
  have cp: "crossPhaseChecks ref_builtins (js ''composer'') ex_out ?cp = None"
    by (rule crossPhaseChecks_composer) (simp_all only: byT d)
  have "runPhase ref_builtins ex_orchestrator ex_world_cycle2 (stage_named ''composer'' ''Composer'') ?cp
     = (stage_done ex_world_cycle2 ex_orchestrator (stage_named ''composer'' ''Composer'') ?cp ex_out,
        Inr (completed_row (inserted_row ex_world_cycle2 (projectId ex_orchestrator)
               (ap_type (stage_named ''composer'' ''Composer''))) (Some ex_out)
               (provider ex_orchestrator) (n_store ex_world_cycle2 + 1)))"
    by (rule runPhase_first_try [where c = ex_reply_text and m = "js ''model-1''"])
       (simp_all add: ex_world_cycle2_def ex_world_cycle1_def ex_reply_def ex_reply_parses ex_out_valid stage_named_def cp)
  then show ?thesis
    by (simp add: ex_world_cycle3_def ex_world_cycle2_def ex_world_cycle1_def completed_row_def inserted_row_def ex_row_def ex_orchestrator_def
        stage_named_def fresh_ids fresh_id_simps)
qed

lemma ex_cycle_run:
  "applyCriticRevisions ref_builtins ex_orchestrator ex_world_cycle ex_cycle_results =
     (ex_world_cycle3, [ex_row 13 ''system'' 7, ex_row 14 ''critic'' 9, ex_row 15 ''composer'' 11], None)"
proof -
  have l: "rerun_requested ref_builtins ex_orchestrator ex_world_cycle [Inr (js ''system'')] ex_cycle_results =
           (ex_world_cycle1, [ex_row 13 ''system'' 7, completed_result 11 (js ''critic'') ex_critic_out 3 4,
                 completed_result 12 (js ''composer'') ex_out 5 6], None)"
    by (simp add: ex_lookup_system rerun_def ex_step1 ex_replace1)
  have c: "rerun_named ref_builtins ex_orchestrator ex_world_cycle1 (js ''critic'')
             [ex_row 13 ''system'' 7, completed_result 11 (js ''critic'') ex_critic_out 3 4,
              completed_result 12 (js ''composer'') ex_out 5 6] =
           (ex_world_cycle2, [ex_row 13 ''system'' 7, ex_row 14 ''critic'' 9, completed_result 12 (js ''composer'') ex_out 5 6], None)"
    by (simp add: rerun_named_def ex_lookup_critic rerun_def ex_step2 js_eq_iff)
  have d: "rerun_named ref_builtins ex_orchestrator ex_world_cycle2 (js ''composer'')
             [ex_row 13 ''system'' 7, ex_row 14 ''critic'' 9, completed_result 12 (js ''composer'') ex_out 5 6] =
           (ex_world_cycle3, [ex_row 13 ''system'' 7, ex_row 14 ''critic'' 9, ex_row 15 ''composer'' 11], None)"
    by (simp add: rerun_named_def ex_lookup_critic rerun_def ex_step3 js_eq_iff)
  show ?thesis
    by (simp add: applyCriticRevisions_def ex_critic_reads ex_critic_target l c d lt_half_def
        del: rerun_requested.simps)
qed

subsection \<open>The convergence controller\<close>

text \<open>
  One call of the controller: the stage runs it enters are an initial part of the list
  of the phase objects that the lookups of the requested targets return, followed by the
  critic and the composer, and all of the list when the call returns normally.
\<close>

lemma critic_cycle_bounded:
  assumes "applyCriticRevisions B orc w completed = (w', completed', res)"
  shows "\<exists>n\<le>length (cycle_plan B completed).
           invocations (trace w') = invocations (trace w) @ take n (cycle_plan B completed)
           \<and> (res = None \<longrightarrow> n = length (cycle_plan B completed))"
  using applyCriticRevisions_trace [OF assms] by blast

lemma ex_cycle_plan:
  "cycle_plan ref_builtins ex_cycle_results = [Some (js ''system''), Some (js ''critic''), Some (js ''composer'')]"
  by (simp add: cycle_plan_def critic_escalates_def ex_critic_reads ex_critic_target ex_lookup_system
      stage_named_def lt_half_def)

text \<open>
  The example: the critic asks for the system stage with severity 0.9. The call runs
  the system stage, the critic, the composer, and nothing after them, although the
  output of the re-run critic has severity 1 and a request, so that the guard holds of
  the results the cycle leaves.
\<close>

lemma critic_cycle_example:
  "applyCriticRevisions ref_builtins ex_orchestrator ex_world_cycle ex_cycle_results =
     (ex_world_cycle3, [ex_row 13 ''system'' 7, ex_row 14 ''critic'' 9, ex_row 15 ''composer'' 11], None)
   \<and> cycle_plan ref_builtins ex_cycle_results = [Some (js ''system''), Some (js ''critic''), Some (js ''composer'')]
   \<and> invocations (trace ex_world_cycle3) =
       invocations (trace ex_world_cycle) @ [Some (js ''system''), Some (js ''critic''), Some (js ''composer'')]
   \<and> critic_severity ex_out = Finite 1
   \<and> critic_escalates [ex_row 13 ''system'' 7, ex_row 14 ''critic'' 9, ex_row 15 ''composer'' 11]"
  using critic_cycle_bounded [OF ex_cycle_run]
  by (simp add: ex_cycle_run ex_cycle_plan)
     (simp add: critic_escalates_def critic_severity_def critic_revs_def lt_half_def dyn_eval
        ex_row_def ex_out_def js_eq_iff)

lemma ex_quiet_reads:
  "find (\<lambda>p. phase_type p = js ''critic'') ex_quiet_results = Some (completed_result 11 (js ''critic'') ex_quiet_out 3 4)"
  "truthy ex_quiet_out"
  "critic_revs ex_quiet_out = []"
  "critic_severity ex_quiet_out = Finite (1 / 10)"
  by (simp_all add: ex_quiet_results_def completed_result_def ex_quiet_out_def critic_revs_def
      critic_severity_def dyn_eval js_def)

lemma ex_quiet_run:
  "applyCriticRevisions ref_builtins ex_orchestrator ex_world_quiet ex_quiet_results =
     (ex_world_quiet, ex_quiet_results, None)"
  by (simp add: applyCriticRevisions_def ex_quiet_reads lt_half_def)

text \<open>
  The claim as stated fails on its last part: with no request and severity 0.1 the
  controller returns at once, and the composer is not invoked again.
\<close>

theorem quiet_critic_skips_recomposition:
  "critic_revs ex_quiet_out = [] \<and> critic_severity ex_quiet_out = Finite (1 / 10)
   \<and> applyCriticRevisions ref_builtins ex_orchestrator ex_world_quiet ex_quiet_results =
       (ex_world_quiet, ex_quiet_results, None)
   \<and> invocations (trace (fst (applyCriticRevisions ref_builtins ex_orchestrator ex_world_quiet ex_quiet_results))) = []"
  by (simp add: ex_quiet_run ex_quiet_reads) (simp add: ex_world_quiet_def world_with_def)

text \<open>
  Claim C5, amended. The controller starts the cycle if and only if the critic result
  has an output and its request list is not empty or its severity is not below 0.5.
  When it does, the first stage of the plan is invoked, unless reading the target of
  the first request throws. When it does not, the controller returns at once: the
  world and the results are as they were, and no stage is invoked, the composer included.
\<close>

theorem critic_guard:
  assumes "applyCriticRevisions B orc w completed = (w', completed', res)"
  shows "(critic_escalates completed \<longrightarrow>
            (\<exists>ts. invocations (trace w') = invocations (trace w) @ hd (cycle_plan B completed) # ts)
            \<or> res = Some TypeError)
       \<and> (\<not> critic_escalates completed \<longrightarrow> w' = w \<and> completed' = completed \<and> res = None)"
proof (intro conjI impI)
  assume e: "critic_escalates completed"
  from applyCriticRevisions_trace [OF assms] obtain n where n:
    "invocations (trace w') = invocations (trace w) @ take n (cycle_plan B completed)"
    "critic_escalates completed \<and> n = 0 \<longrightarrow> res = Some TypeError"
    by blast
  show "(\<exists>ts. invocations (trace w') = invocations (trace w) @ hd (cycle_plan B completed) # ts)
        \<or> res = Some TypeError"
  proof (cases n)
    case 0
    with n e show ?thesis by simp
  next
    case (Suc k)
    from cycle_plan_hd [OF e, of B] obtain t ts where "cycle_plan B completed = t # ts"
      by (cases "cycle_plan B completed") auto
    with n Suc show ?thesis by simp
  qed
next
  assume "\<not> critic_escalates completed"
  with assms show "w' = w" "completed' = completed" "res = None"
    by (simp_all add: critic_quiet)
qed

theorem critic_guard_witness:
  "critic_escalates ex_cycle_results
   \<and> (\<exists>ts. invocations (trace ex_world_cycle3) = invocations (trace ex_world_cycle) @ Some (js ''system'') # ts)
   \<and> \<not> critic_escalates ex_quiet_results
   \<and> applyCriticRevisions ref_builtins ex_orchestrator ex_world_quiet ex_quiet_results =
       (ex_world_quiet, ex_quiet_results, None)"
  using critic_guard [OF ex_cycle_run] critic_guard [OF ex_quiet_run]
  by (simp add: ex_cycle_plan ex_quiet_run critic_escalates_def ex_critic_reads ex_quiet_reads lt_half_def)

subsection \<open>One result for each stage type\<close>

lemma replaceResult_types:
  "phase_type r = ty \<Longrightarrow>
   map phase_type (replaceResult ty r cp) =
     (if ty \<in> set (map phase_type cp) then map phase_type cp else map phase_type cp @ [ty])"
  by (induction cp) auto

lemma replaceResult_find:
  "phase_type r = ty \<Longrightarrow> find (\<lambda>p. phase_type p = ty) (replaceResult ty r cp) = Some r"
  by (induction cp) auto

lemma replaceResult_distinct:
  "phase_type r = ty \<Longrightarrow> distinct (map phase_type cp) \<Longrightarrow> distinct (map phase_type (replaceResult ty r cp))"
  by (simp add: replaceResult_types)

lemma rerun_distinct:
  assumes "distinct (map phase_type cp)"
  shows "distinct (map phase_type (fst (snd (rerun B orc w ref cp))))"
proof (cases ref)
  case (Stage phase)
  show ?thesis
  proof (cases "runPhase B orc w phase cp")
    case (Pair w1 res)
    show ?thesis
    proof (cases res)
      case (Inl e)
      with Pair Stage assms show ?thesis by (simp add: rerun_def)
    next
      case (Inr r)
      with Pair have "phase_type r = ap_type phase" using runPhase_returns(2) by blast
      with Pair Inr Stage assms show ?thesis by (simp add: rerun_def replaceResult_distinct)
    qed
  qed
next
  case (InheritedMember m)
  with assms show ?thesis by (simp add: rerun_def insert_phase_eq)
qed

lemma rerun_requested_distinct:
  "distinct (map phase_type cp) \<Longrightarrow>
   distinct (map phase_type (fst (snd (rerun_requested B orc w ts cp))))"
proof (induction ts arbitrary: w cp)
  case Nil
  then show ?case by simp
next
  case (Cons t ts)
  show ?case
  proof (cases t)
    case (Inl e)
    with Cons.prems show ?thesis by simp
  next
    case (Inr ty)
    show ?thesis
    proof (cases "byType_lookup ty")
      case None
      with Inr Cons show ?thesis by simp
    next
      case (Some ref)
      obtain w1 cp1 r1 where r: "rerun B orc w ref cp = (w1, cp1, r1)"
        by (cases "rerun B orc w ref cp")
      have d: "distinct (map phase_type cp1)"
        using rerun_distinct [OF Cons.prems, of B orc w ref] r by simp
      show ?thesis
        using Inr Some r d Cons.IH [OF d] by (cases r1) simp_all
    qed
  qed
qed

lemma rerun_named_distinct:
  "distinct (map phase_type cp) \<Longrightarrow>
   distinct (map phase_type (fst (snd (rerun_named B orc w ty cp))))"
  by (simp add: rerun_named_def rerun_distinct split: option.splits)

lemma applyQualityChecklist_distinct:
  "distinct (map phase_type cp) \<Longrightarrow>
   distinct (map phase_type (fst (snd (applyQualityChecklist B orc w cp))))"
  by (simp add: applyQualityChecklist_def rerun_requested_distinct split: sum.splits)

lemma applyCriticRevisions_distinct:
  assumes "distinct (map phase_type cp)"
  shows "distinct (map phase_type (fst (snd (applyCriticRevisions B orc w cp))))"
proof (cases "critic_escalates cp")
  case False
  with assms show ?thesis by (simp add: critic_quiet)
next
  case True
  then obtain critic where c: "find (\<lambda>p. phase_type p = js ''critic'') cp = Some critic"
    and t: "truthy (ph_output critic)"
    and g: "\<not> (length (critic_revs (ph_output critic)) = 0 \<and> lt_half (critic_severity (ph_output critic)))"
    by (auto simp: critic_escalates_def split: option.splits)
  let ?ts = "map (critic_target B) (critic_revs (ph_output critic))"
  obtain w1 cp1 r1 where l: "rerun_requested B orc w ?ts cp = (w1, cp1, r1)"
    by (cases "rerun_requested B orc w ?ts cp")
  have d1: "distinct (map phase_type cp1)"
    using rerun_requested_distinct [OF assms, of B orc w ?ts] l by simp
  obtain w2 cp2 r2 where c2: "rerun_named B orc w1 (js ''critic'') cp1 = (w2, cp2, r2)"
    by (cases "rerun_named B orc w1 (js ''critic'') cp1")
  have d2: "distinct (map phase_type cp2)"
    using rerun_named_distinct [OF d1, of B orc w1 "js ''critic''"] c2 by simp
  have d3: "distinct (map phase_type (fst (snd (rerun_named B orc w2 (js ''composer'') cp2))))"
    using d2 by (rule rerun_named_distinct)
  from c t g l c2 d1 d2 d3 show ?thesis
    by (cases r1; cases r2) (auto simp: applyCriticRevisions_def)
qed

lemma firstPass_types:
  assumes "firstPass B orc w phases cp = (w', cp', res)"
  shows "\<exists>k\<le>length phases. map phase_type cp' = map phase_type cp @ map ap_type (take k phases)"
  using assms
proof (induction phases arbitrary: w cp)
  case Nil
  then show ?case by simp
next
  case (Cons phase rest)
  let ?w = "notifyProgress \<lparr>currentPhase = ap_name phase, completedPhases = map phase_type cp,
                              totalPhases = length AGENT_PHASES, progress_error = None\<rparr> w"
  obtain w1 r where r: "runPhase B orc ?w phase cp = (w1, r)"
    by (cases "runPhase B orc ?w phase cp")
  show ?case
  proof (cases r)
    case (Inl e)
    with Cons.prems r have "cp' = cp" by simp
    then show ?thesis by (intro exI [of _ 0]) simp
  next
    case (Inr result)
    with r have t: "phase_type result = ap_type phase" using runPhase_returns(2) by blast
    from Cons.prems r Inr have "firstPass B orc w1 rest (cp @ [result]) = (w', cp', res)" by simp
    from Cons.IH [OF this] obtain k where "k \<le> length rest"
      "map phase_type cp' = map phase_type (cp @ [result]) @ map ap_type (take k rest)" by blast
    with t show ?thesis by (intro exI [of _ "Suc k"]) simp
  qed
qed

lemma AGENT_PHASES_distinct: "distinct (map ap_type AGENT_PHASES)"
  by (simp add: AGENT_PHASES_def js_def)

lemma firstPass_distinct:
  assumes "firstPass B orc w AGENT_PHASES [] = (w', cp', res)"
  shows "distinct (map phase_type cp')"
proof -
  from firstPass_types [OF assms] obtain k where "map phase_type cp' = map ap_type (take k AGENT_PHASES)"
    by auto
  then show ?thesis
    using AGENT_PHASES_distinct by (simp add: take_map [symmetric] distinct_take del: distinct_map)
qed

text \<open>
  The claim as stated fails on the stored records: the re-run of the system stage
  inserts a second record of type \<open>system\<close> for the project, and the record of the first
  run stays, completed as well.
\<close>

theorem rerun_adds_second_record:
  "rerun ref_builtins ex_orchestrator ex_world_cycle (Stage (stage_named ''system'' ''System Architect''))
       ex_cycle_results =
     (ex_world_cycle1,
      [ex_row 13 ''system'' 7, completed_result 11 (js ''critic'') ex_critic_out 3 4,
       completed_result 12 (js ''composer'') ex_out 5 6], None)
   \<and> filter (\<lambda>r. project_id r = js ''p1'' \<and> phase_type r = js ''system'' \<and> ph_status r = Completed)
        (planning_phases ex_world_cycle) = [completed_result 10 (js ''system'') ex_out 1 2]
   \<and> filter (\<lambda>r. project_id r = js ''p1'' \<and> phase_type r = js ''system'' \<and> ph_status r = Completed)
        (planning_phases ex_world_cycle1) = [completed_result 10 (js ''system'') ex_out 1 2, ex_row 13 ''system'' 7]"
proof -
  have p: "planning_phases ex_world_cycle1 = ex_cycle_results @ [ex_row 13 ''system'' 7]"
    using runPhase_returns(1) [OF ex_step1] by simp
  show ?thesis
    by (simp add: p rerun_def ex_step1 ex_replace1)
       (simp add: ex_cycle_results_def completed_result_def ex_row_def js_eq_iff)
qed

text \<open>
  Claim C9, amended. The list of results that the orchestrator holds during a run has
  at most one result for each stage type: a re-run that returns puts its result in the
  place of the earlier result of its type (or at the end when there was none). The
  table of stage records grows by the record of the re-run.
\<close>

theorem rerun_replaces_result:
  assumes "distinct (map phase_type completed)"
    and "rerun B orc w (Stage phase) completed = (w', completed', None)"
  shows "\<exists>r. runPhase B orc w phase completed = (w', Inr r)
           \<and> distinct (map phase_type completed')
           \<and> find (\<lambda>p. phase_type p = ap_type phase) completed' = Some r
           \<and> set (map phase_type completed') = insert (ap_type phase) (set (map phase_type completed))
           \<and> length completed' = (if ap_type phase \<in> set (map phase_type completed)
                                   then length completed else length completed + 1)
           \<and> planning_phases w' = planning_phases w @ [r]"
proof -
  from assms(2) obtain r where r: "runPhase B orc w phase completed = (w', Inr r)"
    and c: "completed' = replaceResult (ap_type phase) r completed"
    by (auto simp: rerun_def split: prod.splits sum.splits)
  from runPhase_returns [OF r] have t: "phase_type r = ap_type phase"
    and p: "planning_phases w' = planning_phases w @ [r]" by simp_all
  have l: "length (map phase_type completed') = (if ap_type phase \<in> set (map phase_type completed)
                                   then length completed else length completed + 1)"
    unfolding c replaceResult_types [OF t] by simp
  have s: "set (map phase_type completed') = insert (ap_type phase) (set (map phase_type completed))"
    unfolding c replaceResult_types [OF t] by auto
  from r c t p l s assms(1) show ?thesis
    by (simp add: replaceResult_distinct replaceResult_find del: set_map)
qed

theorem rerun_replaces_result_witness:
  "distinct (map phase_type ex_cycle_results)
   \<and> rerun ref_builtins ex_orchestrator ex_world_cycle (Stage (stage_named ''system'' ''System Architect''))
         ex_cycle_results =
       (ex_world_cycle1,
        [ex_row 13 ''system'' 7, completed_result 11 (js ''critic'') ex_critic_out 3 4,
         completed_result 12 (js ''composer'') ex_out 5 6], None)
   \<and> find (\<lambda>p. phase_type p = js ''system'')
         [ex_row 13 ''system'' 7, completed_result 11 (js ''critic'') ex_critic_out 3 4,
          completed_result 12 (js ''composer'') ex_out 5 6] = Some (ex_row 13 ''system'' 7)
   \<and> planning_phases ex_world_cycle1 = planning_phases ex_world_cycle @ [ex_row 13 ''system'' 7]"
proof -
  have d: "distinct (map phase_type ex_cycle_results)"
    by (simp add: ex_cycle_results_def js_eq_iff)
  have r: "rerun ref_builtins ex_orchestrator ex_world_cycle (Stage (stage_named ''system'' ''System Architect''))
         ex_cycle_results =
       (ex_world_cycle1,
        [ex_row 13 ''system'' 7, completed_result 11 (js ''critic'') ex_critic_out 3 4,
         completed_result 12 (js ''composer'') ex_out 5 6], None)"
    by (simp add: rerun_def ex_step1 ex_replace1)
  from rerun_replaces_result [OF d r] d r show ?thesis
    by (simp add: ex_step1)
qed

subsection \<open>Requests for unknown stage types\<close>

lemma fold_byType_None:
  "(fold (\<lambda>ap m. m(ap_type ap \<mapsto> ap)) aps m t = None) = (m t = None \<and> t \<notin> ap_type ` set aps)"
  by (induction aps arbitrary: m) auto

lemma byType_lookup_None_iff:
  "(byType_lookup t = None) =
     (t \<notin> set (map ap_type AGENT_PHASES) \<and> t \<noteq> js ''constructor'' \<and> t \<noteq> js ''__proto__'')"
proof (cases "phasesByType t")
  case None
  then have "t \<notin> ap_type ` set AGENT_PHASES"
    unfolding phasesByType_def fold_byType_None by simp
  with None show ?thesis
    by (simp add: byType_lookup_def)
next
  case (Some ap)
  then have "phasesByType t \<noteq> None" by simp
  then have "t \<in> ap_type ` set AGENT_PHASES"
    unfolding phasesByType_def fold_byType_None by simp
  with Some show ?thesis by (simp add: byType_lookup_def)
qed

lemma unknown_target_skipped:
  assumes "ty \<notin> set (map ap_type AGENT_PHASES)" "ty \<noteq> js ''constructor''" "ty \<noteq> js ''__proto__''"
  shows "rerun_requested B orc w (Inr ty # targets) cp = rerun_requested B orc w targets cp"
  using assms byType_lookup_None_iff [of ty] by simp

lemma ex_proto_reads:
  "find (\<lambda>p. phase_type p = js ''critic'') ex_proto_results = Some (completed_result 11 (js ''critic'') ex_proto_out 3 4)"
  "truthy ex_proto_out"
  "map (critic_target ref_builtins) (critic_revs ex_proto_out) = [Inr (js ''constructor''), Inr (js ''system'')]"
  "critic_severity ex_proto_out = Finite (9 / 10)"
  by (simp_all add: ex_proto_results_def completed_result_def ex_proto_out_def critic_revs_def
      critic_severity_def critic_target_def ref_builtins_def ascii_lower_def dyn_eval js_def)

lemma ex_lookup_constructor:
  "js ''constructor'' \<notin> set (map ap_type AGENT_PHASES)"
  "byType_lookup (js ''constructor'') = Some (InheritedMember (js ''constructor''))"
  by (simp_all add: byType_lookup_def phasesByType_def AGENT_PHASES_def js_def)

text \<open>
  Claim C10 fails on the target \<open>constructor\<close>: it is no stage type, yet the lookup finds
  the member that every plain object inherits, a stage run is entered with it, the store
  refuses the record, and the error ends the pass before the request for the system
  stage is looked at.
\<close>

theorem inherited_member_target_aborts:
  "map (critic_target ref_builtins) (critic_revs ex_proto_out) = [Inr (js ''constructor''), Inr (js ''system'')]
   \<and> js ''constructor'' \<notin> set (map ap_type AGENT_PHASES)
   \<and> snd (snd (applyCriticRevisions ref_builtins ex_orchestrator ex_world_proto ex_proto_results)) = Some StoreError
   \<and> invocations (trace (fst (applyCriticRevisions ref_builtins ex_orchestrator ex_world_proto ex_proto_results)))
       = [None]"
  using ex_lookup_constructor(1)
  by (simp add: ex_proto_reads ex_lookup_constructor(2) applyCriticRevisions_def lt_half_def rerun_def
      insert_phase_eq log_event_def ex_world_proto_def world_with_def)


subsection \<open>Generation, validation and repair\<close>

lemma store_trace [simp]:
  "trace (fail_phase i w) = trace w"
  "trace (fst (complete_phase w i out prov)) = trace w"
  "trace (update_project_status st pid w) = trace w"
  "trace (fst (select_project w pid)) = trace w"
  by (simp_all add: store_eqs split: option.splits)

lemma after_insert_fields [simp]:
  "env_ok (after_insert w pid t) = env_ok w"
  "fetch_script (after_insert w pid t) = fetch_script w"
  "n_fetch (after_insert w pid t) = n_fetch w"
  "store_script (after_insert w pid t) = store_script w"
  "n_store (after_insert w pid t) = n_store w + 1"
  "project_row (after_insert w pid t) = project_row w"
  "planning_phases (after_insert w pid t) = planning_phases w @ [inserted_row w pid t]"
  "trace (after_insert w pid t) = trace w @ [EInvoke (Some t)]"
  by (simp_all add: after_insert_def)

lemma attempt_step_valid:
  assumes "callAI w \<lparr>msg_stage = ap_type phase, msg_prompt = ContextualPrompt (extractDecisionLedger prev)\<rparr>
             (provider orc) generate_options = (w1, Inr response)"
    and "parseJSONResponse (JSON_parse B) (content response) = Inr out"
    and "valid (validateJSON B (ap_type phase) out)"
  shows "attempt_step B orc w phase prev ov attempt =
           (w1, case crossPhaseChecks B (ap_type phase) out prev of Some e \<Rightarrow> Throw e | None \<Rightarrow> Break out)"
  using assms by (simp add: attempt_step_def split: option.splits)

lemma runPhase_first_response_valid:
  assumes s: "store_script w (n_store w)"
    and c: "callAI (after_insert w (projectId orc) (ap_type phase))
              \<lparr>msg_stage = ap_type phase, msg_prompt = ContextualPrompt (extractDecisionLedger prev)\<rparr>
              (provider orc) generate_options = (w1, Inr response)"
    and p: "parseJSONResponse (JSON_parse B) (content response) = Inr out"
    and v: "valid (validateJSON B (ap_type phase) out)"
  shows "calls (trace (fst (runPhase B orc w phase prev))) = calls (trace w) @ [generate_request orc phase prev]"
    and "crossPhaseChecks B (ap_type phase) out prev = None \<Longrightarrow> store_script w1 (n_store w1) \<Longrightarrow>
         \<exists>w' r. runPhase B orc w phase prev = (w', Inr r) \<and> ph_status r = Completed \<and> ph_output r = out"
proof -
  let ?w0 = "after_insert w (projectId orc) (ap_type phase)"
  have tr: "calls (trace w1) = calls (trace w) @ [generate_request orc phase prev]"
    using callAI_calls [of ?w0 "\<lparr>msg_stage = ap_type phase, msg_prompt = ContextualPrompt (extractDecisionLedger prev)\<rparr>"
        "provider orc" generate_options] c
    by (simp add: generate_options_def generate_request_def)
  have a: "attempt_step B orc ?w0 phase prev None 0 =
           (w1, case crossPhaseChecks B (ap_type phase) out prev of Some e \<Rightarrow> Throw e | None \<Rightarrow> Break out)"
    by (rule attempt_step_valid [OF c p v])
  show "calls (trace (fst (runPhase B orc w phase prev))) = calls (trace w) @ [generate_request orc phase prev]"
  proof (cases "crossPhaseChecks B (ap_type phase) out prev")
    case None
    with a have "generation_loop B orc ?w0 phase prev None 0 = (w1, Inr (Some out))"
      by (intro generation_loop_break) (simp_all add: maxRetries_phase_def)
    then show ?thesis
      using s tr
      by (cases "store_script w1 (n_store w1)")
         (simp_all add: runPhase_completed runPhase_update_refused)
  next
    case (Some e)
    with a have "generation_loop B orc ?w0 phase prev None 0 = (w1, Inl e)"
      by (intro generation_loop_throw) (simp_all add: maxRetries_phase_def)
    then show ?thesis
      using s tr by (simp add: runPhase_failed)
  qed
  show "\<exists>w' r. runPhase B orc w phase prev = (w', Inr r) \<and> ph_status r = Completed \<and> ph_output r = out"
    if n: "crossPhaseChecks B (ap_type phase) out prev = None" and u: "store_script w1 (n_store w1)"
  proof -
    from a n have "generation_loop B orc ?w0 phase prev None 0 = (w1, Inr (Some out))"
      by (intro generation_loop_break) (simp_all add: maxRetries_phase_def)
    from runPhase_completed [OF s this u] show ?thesis
      by (simp add: completed_row_def)
  qed
qed

lemma ex_first_call:
  "callAI (after_insert ex_world_cycle (js ''p1'') (js ''system''))
     \<lparr>msg_stage = js ''system'', msg_prompt = ContextualPrompt (extractDecisionLedger ex_cycle_results)\<rparr>
     Anthropic generate_options =
   ((after_insert ex_world_cycle (js ''p1'') (js ''system''))
      \<lparr>n_fetch := 1,
        trace := [EInvoke (Some (js ''system'')),
                  ECall (generate_request ex_orchestrator (stage_named ''system'' ''System Architect'') ex_cycle_results),
                  EFetch]\<rparr>,
    Inr \<lparr>content = ex_reply_text, model = js ''model-1''\<rparr>)"
  by (subst callAI_first_ok [where c = ex_reply_text and m = "js ''model-1''"])
     (simp_all add: ex_reply_def generate_options_def generate_request_def ex_orchestrator_def stage_named_def)

text \<open>
  The calls of a stage run. In one turn of the loop the backend is called for a
  generation and then, exactly when that call returns a response that parses to an
  output that fails validation and an attempt remains, once more for a repair; the
  repair call has temperature 0.1, below the 0.2 of the generation call. When the
  first generation response of a stage run parses and validates, the run makes that one
  call and no other; it returns the completed record when, moreover, the cross-phase
  check does not throw and the store performs the update.
\<close>

lemma repair_call_exactly_when_invalid:
  "calls (trace (fst (attempt_step B orc w phase prev ov attempt))) =
     calls (trace w) @ generate_request orc phase prev # expected_repairs B orc w phase prev attempt
   \<and> req_temperature (repair_request orc phase errs) < req_temperature (generate_request orc phase prev)
   \<and> (store_script w (n_store w)
        \<and> callAI (after_insert w (projectId orc) (ap_type phase))
             \<lparr>msg_stage = ap_type phase, msg_prompt = ContextualPrompt (extractDecisionLedger prev)\<rparr>
             (provider orc) generate_options = (w1, Inr response)
        \<and> parseJSONResponse (JSON_parse B) (content response) = Inr out
        \<and> valid (validateJSON B (ap_type phase) out)
      \<longrightarrow> calls (trace (fst (runPhase B orc w phase prev))) = calls (trace w) @ [generate_request orc phase prev]
          \<and> (crossPhaseChecks B (ap_type phase) out prev = None \<and> store_script w1 (n_store w1)
              \<longrightarrow> (\<exists>w' r. runPhase B orc w phase prev = (w', Inr r) \<and> ph_status r = Completed
                          \<and> ph_output r = out)))"
proof (intro conjI impI)
  show "calls (trace (fst (attempt_step B orc w phase prev ov attempt))) =
     calls (trace w) @ generate_request orc phase prev # expected_repairs B orc w phase prev attempt"
    by (rule attempt_step_calls)
  show "req_temperature (repair_request orc phase errs) < req_temperature (generate_request orc phase prev)"
    by (simp add: repair_request_def generate_request_def)
next
  assume h: "store_script w (n_store w)
        \<and> callAI (after_insert w (projectId orc) (ap_type phase))
             \<lparr>msg_stage = ap_type phase, msg_prompt = ContextualPrompt (extractDecisionLedger prev)\<rparr>
             (provider orc) generate_options = (w1, Inr response)
        \<and> parseJSONResponse (JSON_parse B) (content response) = Inr out
        \<and> valid (validateJSON B (ap_type phase) out)"
  then show "calls (trace (fst (runPhase B orc w phase prev))) = calls (trace w) @ [generate_request orc phase prev]"
    using runPhase_first_response_valid(1) by blast
  assume "crossPhaseChecks B (ap_type phase) out prev = None \<and> store_script w1 (n_store w1)"
  with h show "\<exists>w' r. runPhase B orc w phase prev = (w', Inr r) \<and> ph_status r = Completed \<and> ph_output r = out"
    using runPhase_first_response_valid(2) by blast
qed

text \<open>
  The example: the re-run of the system stage, whose first response is valid.
\<close>

lemma repair_call_example:
  "calls (trace (fst (runPhase ref_builtins ex_orchestrator ex_world_cycle
            (stage_named ''system'' ''System Architect'') ex_cycle_results))) =
     [generate_request ex_orchestrator (stage_named ''system'' ''System Architect'') ex_cycle_results]
   \<and> expected_repairs ref_builtins ex_orchestrator
        (after_insert ex_world_cycle (js ''p1'') (js ''system''))
        (stage_named ''system'' ''System Architect'') ex_cycle_results 0 = []
   \<and> (\<exists>w' r. runPhase ref_builtins ex_orchestrator ex_world_cycle
                 (stage_named ''system'' ''System Architect'') ex_cycle_results = (w', Inr r)
              \<and> ph_status r = Completed \<and> ph_output r = ex_out)"
  using repair_call_exactly_when_invalid [of ref_builtins ex_orchestrator ex_world_cycle
      "stage_named ''system'' ''System Architect''" ex_cycle_results None 0 "[]"
      "(after_insert ex_world_cycle (js ''p1'') (js ''system''))
      \<lparr>n_fetch := 1,
        trace := [EInvoke (Some (js ''system'')),
                  ECall (generate_request ex_orchestrator (stage_named ''system'' ''System Architect'') ex_cycle_results),
                  EFetch]\<rparr>"
      "\<lparr>content = ex_reply_text, model = js ''model-1''\<rparr>" ex_out]
  by (simp add: ex_first_call [unfolded ex_orchestrator_def stage_named_def] ex_first_call ex_reply_parses ex_out_valid crossPhaseChecks_other
      expected_repairs_def ex_orchestrator_def stage_named_def)

lemma ex_entities_parses:
  "parseJSONResponse (JSON_parse ref_builtins) ex_entities_text = Inr ex_entities_out"
  by (simp add: ref_builtins_def ex_entities_out_def ex_entities_text_def str_eval parser_eval reader_eval)

lemma ex_entities_valid: "valid (validateJSON ref_builtins ty ex_entities_out)"
  by (simp add: validateJSON_def ref_builtins_def ajv_ref_def ex_entities_out_def)

lemma ex_entities_cross:
  "crossPhaseChecks ref_builtins (js ''api'') ex_entities_out ex_ux_results = Some TypeError"
proof -
  have u: "outputsByType ex_ux_results (js ''ux'') = Some ex_ux_out"
    by (simp add: outputsByType_def ex_ux_results_def completed_result_def or_else_def ex_ux_out_def)
  have a: "cross_uxAuth (outputsByType ex_ux_results) = Inr (Some (JStr (js ''firebase'')))"
    by (simp add: cross_uxAuth_def u Let_def) (simp add: ex_ux_out_def dyn_eval js_eq_iff js_def)
  have c: "cross_users ref_builtins ex_entities_out (outputsByType ex_ux_results) = Some TypeError"
    by (simp add: cross_users_def Let_def ex_entities_out_def dyn_eval bindE_def js_eq_iff)
  show ?thesis
    by (simp add: crossPhaseChecks_def a c) (simp add: dyn_eval js_def)
qed

lemma ex_world_api_fields [simp]:
  "env_ok ex_world_entities" "fetch_script ex_world_entities = ex_entities_reply" "n_fetch ex_world_entities = 0"
  "store_script ex_world_entities = (\<lambda>n. True)" "n_store ex_world_entities = 3"
  "planning_phases ex_world_entities = ex_ux_results" "trace ex_world_entities = []"
  by (simp_all add: ex_world_entities_def world_with_def)

text \<open>
  Claim C6. A stage whose first generation response parses and validates should
  complete after that one call. The api stage runs after a ux result that chose
  \<open>firebase\<close>, and its first response has the members the schema asks for and an
  \<open>entities\<close> list that holds \<open>null\<close>. The response parses and validates, no repair call
  is made, and yet the stage fails: the cross-phase check, which by its own description
  throws only for hard conflicts and has no \<open>throw\<close> in it, reads \<open>e.name\<close> of the
  \<open>null\<close> entity, and the record of the stage is marked failed.
\<close>

theorem valid_first_response_fails_stage:
  "parseJSONResponse (JSON_parse ref_builtins) ex_entities_text = Inr ex_entities_out
   \<and> valid (validateJSON ref_builtins (js ''api'') ex_entities_out)
   \<and> snd (runPhase ref_builtins ex_orchestrator ex_world_entities (stage_named ''api'' ''API Designer'') ex_ux_results)
       = Inl TypeError
   \<and> calls (trace (fst (runPhase ref_builtins ex_orchestrator ex_world_entities
                          (stage_named ''api'' ''API Designer'') ex_ux_results)))
       = [generate_request ex_orchestrator (stage_named ''api'' ''API Designer'') ex_ux_results]
   \<and> map (\<lambda>r. (phase_type r, ph_status r))
         (planning_phases (fst (runPhase ref_builtins ex_orchestrator ex_world_entities
                                  (stage_named ''api'' ''API Designer'') ex_ux_results)))
       = [(js ''ux'', Completed), (js ''api'', Failed)]"
proof -
  let ?phase = "stage_named ''api'' ''API Designer''"
  let ?w0 = "after_insert ex_world_entities (projectId ex_orchestrator) (ap_type ?phase)"
  let ?msg = "\<lparr>msg_stage = ap_type ?phase,
               msg_prompt = ContextualPrompt (extractDecisionLedger ex_ux_results)\<rparr>"
  let ?w1 = "?w0\<lparr>n_fetch := n_fetch ?w0 + 1,
        trace := trace ?w0 @ [ECall \<lparr>req_message = ?msg, req_provider = provider ex_orchestrator,
          req_temperature = (case opt_temperature generate_options of None \<Rightarrow> 2 / 10 | Some t \<Rightarrow> t),
          req_maxTokens = (case opt_maxTokens generate_options of None \<Rightarrow> 4000 | Some n \<Rightarrow> n)\<rparr>, EFetch]\<rparr>"
  have c: "callAI ?w0 ?msg (provider ex_orchestrator) generate_options =
             (?w1, Inr \<lparr>content = ex_entities_text, model = js ''model-1''\<rparr>)"
    by (rule callAI_first_ok) (simp_all add: ex_entities_reply_def generate_options_def)
  have a: "attempt_step ref_builtins ex_orchestrator ?w0 ?phase ex_ux_results None 0 = (?w1, Throw TypeError)"
    using attempt_step_valid [OF c, of ref_builtins ex_entities_out None 0] ex_entities_parses ex_entities_valid ex_entities_cross
    by simp
  have g: "generation_loop ref_builtins ex_orchestrator ?w0 ?phase ex_ux_results None 0 = (?w1, Inl TypeError)"
    by (rule generation_loop_throw [OF _ a]) (simp add: maxRetries_phase_def)
  have r: "runPhase ref_builtins ex_orchestrator ex_world_entities ?phase ex_ux_results =
             (fail_phase (fresh_id (planning_phases ex_world_entities)) ?w1, Inl TypeError)"
    by (rule runPhase_failed [OF _ g]) simp
  have rows: "planning_phases (fail_phase (fresh_id (planning_phases ex_world_entities)) ?w1) =
          ex_ux_results @ [(inserted_row ex_world_entities (projectId ex_orchestrator) (ap_type ?phase))\<lparr>ph_status := Failed\<rparr>]"
    by (simp add: fail_phase_eq update_row_fresh inserted_row_def)
  have p: "planning_phases (fst (runPhase ref_builtins ex_orchestrator ex_world_entities ?phase ex_ux_results)) =
          ex_ux_results @ [(inserted_row ex_world_entities (projectId ex_orchestrator) (ap_type ?phase))\<lparr>ph_status := Failed\<rparr>]"
    unfolding r using rows by simp
  have t: "trace (fst (runPhase ref_builtins ex_orchestrator ex_world_entities ?phase ex_ux_results)) = trace ?w1"
    unfolding r by simp
  have e: "snd (runPhase ref_builtins ex_orchestrator ex_world_entities ?phase ex_ux_results) = Inl TypeError"
    unfolding r by simp
  have c1: "calls (trace (fst (runPhase ref_builtins ex_orchestrator ex_world_entities ?phase ex_ux_results)))
       = [generate_request ex_orchestrator ?phase ex_ux_results]"
    unfolding t by (simp add: generate_request_def generate_options_def)
  have c2: "map (\<lambda>r. (phase_type r, ph_status r))
         (planning_phases (fst (runPhase ref_builtins ex_orchestrator ex_world_entities ?phase ex_ux_results)))
       = [(js ''ux'', Completed), (js ''api'', Failed)]"
    unfolding p by (simp add: ex_ux_results_def completed_result_def inserted_row_def)
  from ex_entities_parses ex_entities_valid e c1 c2 show ?thesis by simp
qed

subsection \<open>A stage that fails in the first pass\<close>

lemma fetch_error_client [simp]: "client_error (fetch_error outcome)"
  by (simp add: fetch_error_def client_error_def split: fetch_outcome.splits)

lemma callAI_loop_error:
  assumes "callAI_loop w maxRetries attempt lastError = (w', Inl e)"
    and "case lastError of None \<Rightarrow> True | Some e0 \<Rightarrow> client_error e0"
  shows "client_error e"
  using assms
proof (induction "nat (maxRetries - int attempt)" arbitrary: w attempt lastError)
  case 0
  then have "\<not> int attempt < maxRetries" by simp
  with 0 show ?case
    by (simp add: callAI_loop_done client_error_def split: option.splits)
next
  case (Suc n)
  then have lt: "int attempt < maxRetries" by simp
  obtain w1 outcome where f: "do_fetch w = (w1, outcome)" by (cases "do_fetch w")
  show ?case
  proof (cases "is_ok outcome")
    case True
    then obtain c m where "outcome = FetchOk c m" by (cases outcome) (simp_all add: is_ok_def)
    with Suc.prems lt f show ?thesis by (simp add: callAI_loop.simps [of w])
  next
    case False
    have n: "n = nat (maxRetries - int (attempt + 1))" using Suc.hyps(2) by simp
    show ?thesis
    proof (cases "int attempt < maxRetries - 1")
      case True
      obtain w2 r where nr: "next_random w1 = (w2, r)" by (cases "next_random w1")
      from Suc.prems(1) lt f False True nr
      have "callAI_loop (log_event (ESleep (backoffMs attempt r)) w2) maxRetries (attempt + 1)
              (Some (fetch_error outcome)) = (w', Inl e)"
        by (cases outcome) (simp_all add: callAI_loop.simps [of w] is_ok_def)
      from Suc.hyps(1) [OF n this] show ?thesis by simp
    next
      case f2: False
      from Suc.prems(1) lt f False f2
      have "callAI_loop w1 maxRetries (attempt + 1) (Some (fetch_error outcome)) = (w', Inl e)"
        by (cases outcome) (simp_all add: callAI_loop.simps [of w] is_ok_def)
      from Suc.hyps(1) [OF n this] show ?thesis by simp
    qed
  qed
qed

lemma callAI_error:
  "callAI w msg prov opts = (w', Inl e) \<Longrightarrow> client_error e"
  using callAI_loop_error [where lastError = None]
  by (auto simp: callAI_def Let_def client_error_def split: if_splits)

lemma js_find_error: "js_find f xs = Inl e \<Longrightarrow> \<exists>x\<in>set xs. f x = Inl e"
  by (induction xs) (auto split: sum.splits if_splits)

lemma js_some_error: "js_some f xs = Inl e \<Longrightarrow> \<exists>x\<in>set xs. f x = Inl e"
  by (induction xs) (auto split: sum.splits if_splits)

lemma get_error: "get x k = Inl e \<Longrightarrow> e = TypeError"
  by (auto simp: get_def split: option.splits json.splits)

lemma bind_get_error: "bindE (get x k) (\<lambda>v. Inr (g v)) = Inl e \<Longrightarrow> e = TypeError"
  by (auto simp: bindE_def dest: get_error split: sum.splits)

lemma cross_uxAuth_error: "cross_uxAuth byType = Inl e \<Longrightarrow> e = TypeError"
  by (auto simp: cross_uxAuth_def Let_def bindE_def dest!: js_find_error dest: get_error bind_get_error
      split: if_splits option.splits json.splits sum.splits)

lemma cross_users_error: "cross_users B out byType = Some e \<Longrightarrow> e = TypeError"
  by (auto simp: cross_users_def Let_def columnNamed_def dest!: js_find_error js_some_error
      dest: get_error bind_get_error split: if_splits option.splits sum.splits)

lemma crossPhaseChecks_error: "crossPhaseChecks B t out prev = Some e \<Longrightarrow> e = TypeError"
  by (auto simp: crossPhaseChecks_def dest: cross_uxAuth_error cross_users_error
      split: if_splits sum.splits)

lemma repair_step_throw:
  "repair_step B orc w phase out errs = (w', Throw e) \<Longrightarrow> client_error e"
  by (auto simp: repair_step_def dest: callAI_error split: prod.splits sum.splits if_splits)

lemma attempt_step_validation_failed:
  assumes "attempt_step B orc w phase prev ov attempt = (w', Throw (ValidationFailed errs))"
  shows "\<not> attempt < maxRetries_phase - 1
         \<and> (\<exists>response out.
               callAI w \<lparr>msg_stage = ap_type phase, msg_prompt = ContextualPrompt (extractDecisionLedger prev)\<rparr>
                 (provider orc) generate_options = (w', Inr response)
               \<and> parseJSONResponse (JSON_parse B) (content response) = Inr out
               \<and> \<not> valid (validateJSON B (ap_type phase) out)
               \<and> errs = errors (validateJSON B (ap_type phase) out))"
proof -
  let ?msg = "\<lparr>msg_stage = ap_type phase, msg_prompt = ContextualPrompt (extractDecisionLedger prev)\<rparr>"
  obtain w1 r where c: "callAI w ?msg (provider orc) generate_options = (w1, r)"
    by (cases "callAI w ?msg (provider orc) generate_options")
  show ?thesis
  proof (cases r)
    case (Inl e)
    with c assms have "e = ValidationFailed errs" by (simp add: attempt_step_def)
    moreover from c Inl have "client_error e" by (auto dest: callAI_error)
    ultimately show ?thesis by (simp add: client_error_def)
  next
    case (Inr response)
    show ?thesis
    proof (cases "parseJSONResponse (JSON_parse B) (content response)")
      case (Inl parseError)
      with c Inr assms show ?thesis by (simp add: attempt_step_def split: if_splits)
    next
      case p: (Inr out)
      show ?thesis
      proof (cases "valid (validateJSON B (ap_type phase) out)")
        case True
        with c Inr p assms have "crossPhaseChecks B (ap_type phase) out prev = Some (ValidationFailed errs)"
          by (simp add: attempt_step_def split: option.splits)
        from crossPhaseChecks_error [OF this] show ?thesis by simp
      next
        case False
        show ?thesis
        proof (cases "attempt < maxRetries_phase - 1")
          case True
          with c Inr p False assms
          have "repair_step B orc w1 phase out (errors (validateJSON B (ap_type phase) out))
                  = (w', Throw (ValidationFailed errs))"
            by (simp add: attempt_step_def)
          from repair_step_throw [OF this] show ?thesis by (simp add: client_error_def)
        next
          case f: False
          with c Inr p False assms show ?thesis by (simp add: attempt_step_def)
        qed
      qed
    qed
  qed
qed

lemma generation_loop_validation_failed:
  assumes "generation_loop B orc w phase prev ov attempt = (w', Inl (ValidationFailed errs))"
  shows "\<exists>wa response out.
           callAI wa \<lparr>msg_stage = ap_type phase, msg_prompt = ContextualPrompt (extractDecisionLedger prev)\<rparr>
             (provider orc) generate_options = (w', Inr response)
           \<and> parseJSONResponse (JSON_parse B) (content response) = Inr out
           \<and> \<not> valid (validateJSON B (ap_type phase) out)
           \<and> errs = errors (validateJSON B (ap_type phase) out)"
  using assms
proof (induction "maxRetries_phase - attempt" arbitrary: w ov attempt)
  case 0
  then have "\<not> attempt < maxRetries_phase" by simp
  with 0 show ?case by (simp add: generation_loop_done)
next
  case (Suc n)
  then have lt: "attempt < maxRetries_phase" by simp
  obtain w1 r where a: "attempt_step B orc w phase prev ov attempt = (w1, r)"
    by (cases "attempt_step B orc w phase prev ov attempt")
  show ?case
  proof (cases r)
    case (Break out)
    with Suc.prems lt a show ?thesis by (simp add: generation_loop_break)
  next
    case (Continue ov')
    with Suc.prems lt a
    have "generation_loop B orc w1 phase prev ov' (attempt + 1) = (w', Inl (ValidationFailed errs))"
      by (simp add: generation_loop_continue)
    moreover have "n = maxRetries_phase - (attempt + 1)" using Suc.hyps(2) by simp
    ultimately show ?thesis by (rule Suc.hyps(1) [rotated])
  next
    case (Throw e)
    with Suc.prems lt a have "w1 = w'" "e = ValidationFailed errs"
      by (simp_all add: generation_loop_throw)
    with a Throw attempt_step_validation_failed [of B orc w phase prev ov attempt w' errs]
    show ?thesis by blast
  qed
qed

lemma runPhase_validation_failed:
  assumes "runPhase B orc w phase prev = (w', Inl (ValidationFailed errs))"
  shows "\<exists>wa wb response out.
           callAI wa \<lparr>msg_stage = ap_type phase, msg_prompt = ContextualPrompt (extractDecisionLedger prev)\<rparr>
             (provider orc) generate_options = (wb, Inr response)
           \<and> parseJSONResponse (JSON_parse B) (content response) = Inr out
           \<and> \<not> valid (validateJSON B (ap_type phase) out)
           \<and> errs = errors (validateJSON B (ap_type phase) out)
           \<and> w' = fail_phase (fresh_id (planning_phases w)) wb"
proof (cases "store_script w (n_store w)")
  case False
  with assms show ?thesis by (simp add: runPhase_insert_refused)
next
  case True
  let ?w0 = "after_insert w (projectId orc) (ap_type phase)"
  obtain w2 r where g: "generation_loop B orc ?w0 phase prev None 0 = (w2, r)"
    by (cases "generation_loop B orc ?w0 phase prev None 0")
  show ?thesis
  proof (cases r)
    case (Inl e)
    with g assms True have "w' = fail_phase (fresh_id (planning_phases w)) w2" "e = ValidationFailed errs"
      by (simp_all add: runPhase_failed)
    with g Inl generation_loop_validation_failed [of B orc ?w0 phase prev None 0 w2 errs]
    show ?thesis by blast
  next
    case (Inr out)
    with g assms True show ?thesis
      by (cases "store_script w2 (n_store w2)") (simp_all add: runPhase_completed runPhase_update_refused)
  qed
qed

lemma notifyProgress_frame [simp]:
  "invocations (trace (notifyProgress p w)) = invocations (trace w)"
  "same_scripts w (notifyProgress p w)"
  "n_store (notifyProgress p w) = n_store w"
  "store_script (notifyProgress p w) = store_script w"
  "project_row (notifyProgress p w) = project_row w"
  by (simp_all add: notifyProgress_def log_event_def same_scripts_def)

lemma firstPass_abort:
  assumes "firstPass B orc w phases cp = (w', cp', Some e)"
  shows "\<exists>k<length phases. \<exists>w1 w2.
           invocations (trace w') = invocations (trace w) @ map (\<lambda>p. Some (ap_type p)) (take (Suc k) phases)
           \<and> runPhase B orc w1 (phases ! k) cp' = (w2, Inl e)
           \<and> same_scripts w w2
           \<and> w' = update_project_status Draft (projectId orc)
                    (notifyProgress \<lparr>currentPhase = ap_name (phases ! k), completedPhases = map phase_type cp',
                                     totalPhases = length AGENT_PHASES, progress_error = Some e\<rparr> w2)"
  using assms
proof (induction phases arbitrary: w cp)
  case Nil
  then show ?case by simp
next
  case (Cons phase rest)
  let ?w = "notifyProgress \<lparr>currentPhase = ap_name phase, completedPhases = map phase_type cp,
                              totalPhases = length AGENT_PHASES, progress_error = None\<rparr> w"
  obtain w1 r where r: "runPhase B orc ?w phase cp = (w1, r)"
    by (cases "runPhase B orc ?w phase cp")
  have tr: "invocations (trace w1) = invocations (trace w) @ [Some (ap_type phase)]"
    using runPhase_world(1) [of B orc ?w phase cp] r by simp
  have ss: "same_scripts w w1"
    using runPhase_world(2) [of ?w B orc phase cp] r
    by (auto intro: same_scripts_trans [of w ?w w1])
  show ?case
  proof (cases r)
    case (Inl e')
    with Cons.prems r have eq: "cp' = cp" "e' = e"
      "w' = update_project_status Draft (projectId orc)
              (notifyProgress \<lparr>currentPhase = ap_name phase, completedPhases = map phase_type cp,
                               totalPhases = length AGENT_PHASES, progress_error = Some e\<rparr> w1)"
      by auto
    have i: "invocations (trace w') = invocations (trace w) @ map (\<lambda>p. Some (ap_type p)) (take (Suc 0) (phase # rest))"
      using eq tr by simp
    have p: "runPhase B orc ?w ((phase # rest) ! 0) cp' = (w1, Inl e)"
      using eq r Inl by simp
    have u: "w' = update_project_status Draft (projectId orc)
              (notifyProgress \<lparr>currentPhase = ap_name ((phase # rest) ! 0), completedPhases = map phase_type cp',
                               totalPhases = length AGENT_PHASES, progress_error = Some e\<rparr> w1)"
      using eq by simp
    have "0 < length (phase # rest)" by simp
    with i p ss u show ?thesis by blast
  next
    case (Inr result)
    from Cons.prems r Inr have "firstPass B orc w1 rest (cp @ [result]) = (w', cp', Some e)" by simp
    from Cons.IH [OF this] obtain k wa wb where k: "k < length rest"
      "invocations (trace w') = invocations (trace w1) @ map (\<lambda>p. Some (ap_type p)) (take (Suc k) rest)"
      "runPhase B orc wa (rest ! k) cp' = (wb, Inl e)"
      "same_scripts w1 wb"
      "w' = update_project_status Draft (projectId orc)
              (notifyProgress \<lparr>currentPhase = ap_name (rest ! k), completedPhases = map phase_type cp',
                               totalPhases = length AGENT_PHASES, progress_error = Some e\<rparr> wb)"
      by blast
    have i: "invocations (trace w') =
               invocations (trace w) @ map (\<lambda>p. Some (ap_type p)) (take (Suc (Suc k)) (phase # rest))"
      using k(2) tr by simp
    have p: "runPhase B orc wa ((phase # rest) ! Suc k) cp' = (wb, Inl e)"
      using k(3) by simp
    have u: "w' = update_project_status Draft (projectId orc)
              (notifyProgress \<lparr>currentPhase = ap_name ((phase # rest) ! Suc k), completedPhases = map phase_type cp',
                               totalPhases = length AGENT_PHASES, progress_error = Some e\<rparr> wb)"
      using k(5) by simp
    have "Suc k < length (phase # rest)" using k(1) by simp
    with i p same_scripts_trans [OF ss k(4)] u show ?thesis by blast
  qed
qed

lemma select_project_found:
  assumes "select_project w pid = (w0, Inr (Some project))"
  shows "project_row w0 = Some project" "proj_id project = pid"
  using assms by (auto simp: select_project_eq split: if_splits option.splits)

lemma update_project_status_row:
  assumes "project_row w = Some p" "proj_id p = pid"
  shows "\<exists>q. project_row (update_project_status st pid w) = Some q \<and> proj_id q = pid
             \<and> (store_script w (n_store w) \<longrightarrow> proj_status q = st)"
  using assms by (simp add: update_project_status_eq)

lemma update_project_status_store [simp]:
  "n_store (update_project_status st pid w) = n_store w + 1"
  "store_script (update_project_status st pid w) = store_script w"
  by (simp_all add: update_project_status_eq)

lemma attempt_step_always_invalid:
  assumes e: "env_ok w" and f: "\<forall>n. fetch_script w n = FetchOk c m"
    and p: "parseJSONResponse (JSON_parse B) c = Inr out"
    and v: "\<not> valid (validateJSON B (ap_type phase) out)"
  shows "snd (attempt_step B orc w phase prev ov attempt) =
           (if attempt < maxRetries_phase - 1 then Continue (Some out)
            else Throw (ValidationFailed (errors (validateJSON B (ap_type phase) out))))"
proof -
  have c1: "callAI w msg prov generate_options =
     (w\<lparr>n_fetch := n_fetch w + 1,
        trace := trace w @ [ECall \<lparr>req_message = msg, req_provider = prov,
          req_temperature = 2 / 10, req_maxTokens = 4000\<rparr>, EFetch]\<rparr>,
      Inr \<lparr>content = c, model = m\<rparr>)" for msg prov
    using callAI_first_ok [OF e, of c m generate_options msg prov] f
    by (simp add: generate_options_def)
  have c2: "callAI w1 msg prov repair_options =
     (w1\<lparr>n_fetch := n_fetch w1 + 1,
        trace := trace w1 @ [ECall \<lparr>req_message = msg, req_provider = prov,
          req_temperature = 1 / 10, req_maxTokens = 4000\<rparr>, EFetch]\<rparr>,
      Inr \<lparr>content = c, model = m\<rparr>)"
    if "env_ok w1" "fetch_script w1 = fetch_script w" for w1 msg prov
    using callAI_first_ok [OF that(1), of c m repair_options msg prov] f that(2)
    by (simp add: repair_options_def)
  show ?thesis
    using p v e by (simp add: attempt_step_def c1 repair_step_def c2)
qed

lemma generation_loop_always_invalid:
  assumes e: "env_ok w" and f: "\<forall>n. fetch_script w n = FetchOk c m"
    and p: "parseJSONResponse (JSON_parse B) c = Inr out"
    and v: "\<not> valid (validateJSON B (ap_type phase) out)"
  shows "snd (generation_loop B orc w phase prev ov 0) =
           Inl (ValidationFailed (errors (validateJSON B (ap_type phase) out)))"
proof -
  let ?E = "ValidationFailed (errors (validateJSON B (ap_type phase) out))"
  have step: "env_ok x \<Longrightarrow> fetch_script x = fetch_script w \<Longrightarrow>
      \<exists>y. attempt_step B orc x phase prev ov' a =
             (y, if a < maxRetries_phase - 1 then Continue (Some out) else Throw ?E)
          \<and> env_ok y \<and> fetch_script y = fetch_script w" for x ov' a
  proof -
    assume x: "env_ok x" "fetch_script x = fetch_script w"
    then have "\<forall>n. fetch_script x n = FetchOk c m" using f by simp
    from attempt_step_always_invalid [OF x(1) this p v, of orc prev ov' a]
      attempt_step_frame(1) [of x B orc phase prev ov' a] x
    show ?thesis
      by (cases "attempt_step B orc x phase prev ov' a") (auto simp: same_scripts_def)
  qed
  from step [OF e refl, of ov 0] obtain w1 where
    a0: "attempt_step B orc w phase prev ov 0 = (w1, Continue (Some out))"
    and w1: "env_ok w1" "fetch_script w1 = fetch_script w"
    by (auto simp: maxRetries_phase_def)
  from step [OF w1, of "Some out" 1] obtain w2 where
    a1: "attempt_step B orc w1 phase prev (Some out) 1 = (w2, Continue (Some out))"
    and w2: "env_ok w2" "fetch_script w2 = fetch_script w"
    by (auto simp: maxRetries_phase_def)
  from step [OF w2, of "Some out" 2] obtain w3 where
    a2: "attempt_step B orc w2 phase prev (Some out) 2 = (w3, Throw ?E)"
    by (auto simp: maxRetries_phase_def)
  have "generation_loop B orc w phase prev ov 0 = generation_loop B orc w1 phase prev (Some out) (0 + 1)"
    by (rule generation_loop_continue [OF _ a0]) (simp add: maxRetries_phase_def)
  also have "\<dots> = generation_loop B orc w2 phase prev (Some out) (1 + 1)"
    using generation_loop_continue [OF _ a1] by (simp add: maxRetries_phase_def)
  also have "\<dots> = (w3, Inl ?E)"
    using generation_loop_throw [OF _ a2] by (simp add: maxRetries_phase_def numeral_2_eq_2)
  finally show ?thesis by simp
qed

lemma runPhase_always_invalid:
  assumes e: "env_ok w" and f: "\<forall>n. fetch_script w n = FetchOk c m"
    and p: "parseJSONResponse (JSON_parse B) c = Inr out"
    and v: "\<not> valid (validateJSON B (ap_type phase) out)"
    and s: "store_script w (n_store w)"
  shows "snd (runPhase B orc w phase prev) =
           Inl (ValidationFailed (errors (validateJSON B (ap_type phase) out)))"
proof -
  let ?w0 = "after_insert w (projectId orc) (ap_type phase)"
  have "snd (generation_loop B orc ?w0 phase prev None 0) =
           Inl (ValidationFailed (errors (validateJSON B (ap_type phase) out)))"
    by (rule generation_loop_always_invalid [OF _ _ p v]) (simp_all add: e f)
  then obtain w2 where "generation_loop B orc ?w0 phase prev None 0 =
           (w2, Inl (ValidationFailed (errors (validateJSON B (ap_type phase) out))))"
    by (cases "generation_loop B orc ?w0 phase prev None 0") simp
  from runPhase_failed [OF s this] show ?thesis by simp
qed

lemma firstPass_first_fails:
  assumes "snd (runPhase B orc
             (notifyProgress \<lparr>currentPhase = ap_name phase, completedPhases = map phase_type cp,
                              totalPhases = length AGENT_PHASES, progress_error = None\<rparr> w) phase cp) = Inl e"
  shows "snd (firstPass B orc w (phase # rest) cp) = (cp, Some e)"
  using assms by (auto split: prod.splits sum.splits)

lemma firstPass_abort_status:
  assumes fp: "firstPass B orc w phases cp = (w', cp', Some e)"
    and q: "project_row w = Some q" "proj_id q = projectId orc"
  shows "store_script w' = store_script w"
    and "store_script w' (n_store w' - 1) \<Longrightarrow> project_row w' = Some (q\<lparr>proj_status := Draft\<rparr>)"
proof -
  from firstPass_abort [OF fp] obtain k w1 w2 where ss: "same_scripts w w2"
    and w': "w' = update_project_status Draft (projectId orc)
                    (notifyProgress \<lparr>currentPhase = ap_name (phases ! k), completedPhases = map phase_type cp',
                                     totalPhases = length AGENT_PHASES, progress_error = Some e\<rparr> w2)"
    by blast
  from ss show "store_script w' = store_script w"
    unfolding w' by (simp add: same_scripts_def)
  from ss q show "project_row w' = Some (q\<lparr>proj_status := Draft\<rparr>)" if "store_script w' (n_store w' - 1)"
    using that unfolding w' by (simp add: same_scripts_def update_project_status_eq)
qed

lemma ex_invalid_parses:
  "parseJSONResponse (JSON_parse ref_builtins) (js ''{}'') = Inr (JObj [])"
  by (simp add: ref_builtins_def parser_eval reader_eval str_eval js_def)

lemma ex_invalid_errors:
  "validateJSON ref_builtins ty (JObj []) = \<lparr>valid = False, errors = [js ''/ must have required property'']\<rparr>"
  by (simp add: validateJSON_def ref_builtins_def ajv_ref_def js_def)

lemma ex_world_invalid_fields [simp]:
  "env_ok ex_world_invalid" "fetch_script ex_world_invalid = ex_invalid_reply" "n_fetch ex_world_invalid = 0"
  "store_script ex_world_invalid = (\<lambda>n. True)" "n_store ex_world_invalid = 0"
  "planning_phases ex_world_invalid = []" "trace ex_world_invalid = []"
  "project_row ex_world_invalid = Some \<lparr>proj_id = js ''p1'', proj_status = CompletedProject\<rparr>"
  by (simp_all add: ex_world_invalid_def world_with_def)

lemma ex_orchestrator_fields:
  "projectId ex_orchestrator = js ''p1''" "provider ex_orchestrator = Anthropic"
  by (simp_all add: ex_orchestrator_def)

lemma ex_invalid_select:
  "select_project ex_world_invalid (projectId ex_orchestrator) =
     (ex_world_invalid\<lparr>n_store := Suc 0\<rparr>, Inr (Some \<lparr>proj_id = js ''p1'', proj_status = CompletedProject\<rparr>))"
  by (simp add: select_project_eq ex_orchestrator_def)

lemma ex_invalid_planning:
  "env_ok (update_project_status Planning (projectId ex_orchestrator) (ex_world_invalid\<lparr>n_store := Suc 0\<rparr>))"
  "fetch_script (update_project_status Planning (projectId ex_orchestrator) (ex_world_invalid\<lparr>n_store := Suc 0\<rparr>))
     = ex_invalid_reply"
  "store_script (update_project_status Planning (projectId ex_orchestrator) (ex_world_invalid\<lparr>n_store := Suc 0\<rparr>))
     = (\<lambda>n. True)"
  "project_row (update_project_status Planning (projectId ex_orchestrator) (ex_world_invalid\<lparr>n_store := Suc 0\<rparr>))
     = Some \<lparr>proj_id = js ''p1'', proj_status = Planning\<rparr>"
  "trace (update_project_status Planning (projectId ex_orchestrator) (ex_world_invalid\<lparr>n_store := Suc 0\<rparr>)) = []"
  by (simp_all add: update_project_status_eq ex_orchestrator_def)

lemma ex_invalid_first_pass:
  "snd (firstPass ref_builtins ex_orchestrator
          (update_project_status Planning (projectId ex_orchestrator) (ex_world_invalid\<lparr>n_store := Suc 0\<rparr>))
          AGENT_PHASES []) =
     ([], Some (ValidationFailed [js ''/ must have required property'']))"
proof -
  let ?w = "update_project_status Planning (projectId ex_orchestrator) (ex_world_invalid\<lparr>n_store := Suc 0\<rparr>)"
  let ?phase = "\<lparr>ap_type = js ''competitor'', ap_name = js ''Research Analyst''\<rparr>"
  let ?n = "notifyProgress \<lparr>currentPhase = ap_name ?phase, completedPhases = map phase_type ([] :: PlanningPhase list),
                              totalPhases = length AGENT_PHASES, progress_error = None\<rparr> ?w"
  have a: "AGENT_PHASES = ?phase # tl AGENT_PHASES"
    by (simp add: AGENT_PHASES_def)
  have n: "env_ok ?n" "fetch_script ?n = ex_invalid_reply" "store_script ?n = (\<lambda>n. True)"
    by (simp_all add: notifyProgress_def log_event_def ex_invalid_planning)
  have "snd (runPhase ref_builtins ex_orchestrator ?n ?phase []) =
          Inl (ValidationFailed (errors (validateJSON ref_builtins (ap_type ?phase) (JObj []))))"
    by (rule runPhase_always_invalid [where c = "js ''{}''" and m = "js ''model-1''"])
       (use n in \<open>simp_all add: ex_invalid_reply_def ex_invalid_parses ex_invalid_errors\<close>)
  then have "snd (runPhase ref_builtins ex_orchestrator ?n ?phase []) =
          Inl (ValidationFailed [js ''/ must have required property''])"
    by (simp add: ex_invalid_errors)
  from firstPass_first_fails [OF this, of "tl AGENT_PHASES"] a show ?thesis by simp
qed

lemma ex_invalid_first_pass_eq:
  "firstPass ref_builtins ex_orchestrator
          (update_project_status Planning (projectId ex_orchestrator) (ex_world_invalid\<lparr>n_store := Suc 0\<rparr>))
          AGENT_PHASES [] =
     (fst (firstPass ref_builtins ex_orchestrator
          (update_project_status Planning (projectId ex_orchestrator) (ex_world_invalid\<lparr>n_store := Suc 0\<rparr>))
          AGENT_PHASES []),
      [], Some (ValidationFailed [js ''/ must have required property'']))"
  using ex_invalid_first_pass by (simp add: prod_eq_iff)

lemma ex_invalid_run:
  "runAllPhases ref_builtins ex_orchestrator no_prompts ex_world_invalid =
     (fst (firstPass ref_builtins ex_orchestrator
          (update_project_status Planning (projectId ex_orchestrator) (ex_world_invalid\<lparr>n_store := Suc 0\<rparr>))
          AGENT_PHASES []),
      Some (ValidationFailed [js ''/ must have required property'']))"
proof -
  obtain w' where fp: "firstPass ref_builtins ex_orchestrator
          (update_project_status Planning (projectId ex_orchestrator) (ex_world_invalid\<lparr>n_store := Suc 0\<rparr>))
          AGENT_PHASES [] = (w', [], Some (ValidationFailed [js ''/ must have required property'']))"
    using ex_invalid_first_pass_eq by blast
  show ?thesis
    by (simp add: runAllPhases_def ex_invalid_select fp)
qed

text \<open>
  The claim as stated fails on the status: the project was \<open>completed\<close> before the run,
  the first stage uses up its attempts on outputs that fail validation, and the status
  written is \<open>draft\<close>.
\<close>

theorem abort_writes_draft:
  "map_option proj_status (project_row ex_world_invalid) = Some CompletedProject
   \<and> snd (runAllPhases ref_builtins ex_orchestrator no_prompts ex_world_invalid) =
       Some (ValidationFailed [js ''/ must have required property''])
   \<and> map_option proj_status
       (project_row (fst (runAllPhases ref_builtins ex_orchestrator no_prompts ex_world_invalid))) = Some Draft"
proof -
  let ?w' = "fst (firstPass ref_builtins ex_orchestrator
          (update_project_status Planning (projectId ex_orchestrator) (ex_world_invalid\<lparr>n_store := Suc 0\<rparr>))
          AGENT_PHASES [])"
  have s: "store_script ?w' = (\<lambda>n. True)"
    using firstPass_abort_status(1) [OF ex_invalid_first_pass_eq ex_invalid_planning(4)]
    by (simp add: ex_orchestrator_fields ex_invalid_planning(3))
  have "project_row ?w' = Some (\<lparr>proj_id = js ''p1'', proj_status = Planning\<rparr>\<lparr>proj_status := Draft\<rparr>)"
    by (rule firstPass_abort_status(2) [OF ex_invalid_first_pass_eq ex_invalid_planning(4)])
       (use s in \<open>simp_all add: ex_orchestrator_fields\<close>)
  then show ?thesis
    by (simp add: ex_invalid_run)
qed

text \<open>
  A response that the client returns is the outcome of the last \<open>fetch\<close> so far, and
  the error of failed validation of a stage run carries the errors of the output read
  from the last \<open>fetch\<close> of the run.
\<close>

lemma callAI_loop_response:
  assumes "callAI_loop w maxRetries attempt lastError = (w', Inr response)"
  shows "n_fetch w < n_fetch w' \<and> fetch_script w' = fetch_script w
         \<and> fetch_script w (n_fetch w' - 1) = FetchOk (content response) (model response)
         \<and> (\<exists>es. trace w' = es @ [EFetch])"
  using assms
proof (induction "nat (maxRetries - int attempt)" arbitrary: w attempt lastError)
  case 0
  then have "\<not> int attempt < maxRetries" by simp
  with 0 show ?case by (simp add: callAI_loop_done)
next
  case (Suc n)
  then have lt: "int attempt < maxRetries" by simp
  have n: "n = nat (maxRetries - int (attempt + 1))" using Suc.hyps(2) by simp
  show ?case
  proof (cases "is_ok (fetch_script w (n_fetch w))")
    case True
    then obtain c m where ok: "fetch_script w (n_fetch w) = FetchOk c m"
      by (cases "fetch_script w (n_fetch w)") (simp_all add: is_ok_def)
    from Suc.prems callAI_loop_ok [OF lt ok, of lastError] show ?thesis
      using ok by auto
  next
    case False
    show ?thesis
    proof (cases "int attempt < maxRetries - 1")
      case True
      let ?w2 = "w\<lparr>n_fetch := n_fetch w + 1, n_random := n_random w + 1,
          trace := trace w @ [EFetch, ESleep (backoffMs attempt (random_script w (n_random w)))]\<rparr>"
      from Suc.prems callAI_loop_retry [OF True False, of lastError]
      have "callAI_loop ?w2 maxRetries (attempt + 1) (Some (fetch_error (fetch_script w (n_fetch w))))
              = (w', Inr response)" by simp
      from Suc.hyps(1) [OF n this] show ?thesis by auto
    next
      case f2: False
      from Suc.prems callAI_loop_last [OF lt f2 False, of lastError] show ?thesis by simp
    qed
  qed
qed

lemma callAI_response:
  assumes "callAI w msg prov opts = (w', Inr response)"
  shows "n_fetch w < n_fetch w'" "fetch_script w' = fetch_script w"
    "fetch_script w (n_fetch w' - 1) = FetchOk (content response) (model response)"
    "\<exists>es. trace w' = es @ [EFetch]"
  using assms callAI_loop_response [of "log_event (ECall \<lparr>req_message = msg, req_provider = prov,
            req_temperature = (case opt_temperature opts of None \<Rightarrow> 2 / 10 | Some t \<Rightarrow> t),
            req_maxTokens = (case opt_maxTokens opts of None \<Rightarrow> 4000 | Some n \<Rightarrow> n)\<rparr>) w"
        "case opt_retries opts of None \<Rightarrow> 3 | Some n \<Rightarrow> n" 0 None w' response]
  by (auto simp: callAI_def Let_def log_event_def split: if_splits)

lemma store_fetch [simp]:
  "n_fetch (fail_phase i w) = n_fetch w" "fetch_script (fail_phase i w) = fetch_script w"
  "n_fetch (update_project_status st pid w) = n_fetch w"
  "fetch_script (update_project_status st pid w) = fetch_script w"
  "n_fetch (notifyProgress p w) = n_fetch w" "fetch_script (notifyProgress p w) = fetch_script w"
  "trace (notifyProgress p w) = trace w @ [EProgress p]"
  "n_fetch (fst (select_project w pid)) = n_fetch w" "fetch_script (fst (select_project w pid)) = fetch_script w"
  by (simp_all add: store_eqs notifyProgress_def log_event_def)

lemma firstPass_abort_split:
  assumes "firstPass B orc w phases cp = (w', cp', Some e)"
  shows "\<exists>k<length phases. \<exists>wk w2.
           firstPass B orc w (take k phases) cp = (wk, cp', None)
           \<and> runPhase B orc
                 (notifyProgress \<lparr>currentPhase = ap_name (phases ! k), completedPhases = map phase_type cp',
                                  totalPhases = length AGENT_PHASES, progress_error = None\<rparr> wk)
                 (phases ! k) cp' = (w2, Inl e)
           \<and> w' = update_project_status Draft (projectId orc)
                    (notifyProgress \<lparr>currentPhase = ap_name (phases ! k), completedPhases = map phase_type cp',
                                     totalPhases = length AGENT_PHASES, progress_error = Some e\<rparr> w2)"
  using assms
proof (induction phases arbitrary: w cp)
  case Nil
  then show ?case by simp
next
  case (Cons phase rest)
  let ?w = "notifyProgress \<lparr>currentPhase = ap_name phase, completedPhases = map phase_type cp,
                              totalPhases = length AGENT_PHASES, progress_error = None\<rparr> w"
  obtain w1 r where r: "runPhase B orc ?w phase cp = (w1, r)"
    by (cases "runPhase B orc ?w phase cp")
  show ?case
  proof (cases r)
    case (Inl e')
    with Cons.prems r have eq: "cp' = cp" "e' = e"
      "w' = update_project_status Draft (projectId orc)
              (notifyProgress \<lparr>currentPhase = ap_name phase, completedPhases = map phase_type cp,
                               totalPhases = length AGENT_PHASES, progress_error = Some e\<rparr> w1)"
      by auto
    have a: "firstPass B orc w (take 0 (phase # rest)) cp = (w, cp', None)" using eq by simp
    have b: "runPhase B orc
                 (notifyProgress \<lparr>currentPhase = ap_name ((phase # rest) ! 0), completedPhases = map phase_type cp',
                                  totalPhases = length AGENT_PHASES, progress_error = None\<rparr> w)
                 ((phase # rest) ! 0) cp' = (w1, Inl e)"
      using eq r Inl by simp
    have c: "w' = update_project_status Draft (projectId orc)
              (notifyProgress \<lparr>currentPhase = ap_name ((phase # rest) ! 0), completedPhases = map phase_type cp',
                               totalPhases = length AGENT_PHASES, progress_error = Some e\<rparr> w1)"
      using eq by simp
    have "0 < length (phase # rest)" by simp
    with a b c show ?thesis by blast
  next
    case (Inr result)
    from Cons.prems r Inr have "firstPass B orc w1 rest (cp @ [result]) = (w', cp', Some e)" by simp
    from Cons.IH [OF this] obtain k wk w2 where k: "k < length rest"
      "firstPass B orc w1 (take k rest) (cp @ [result]) = (wk, cp', None)"
      "runPhase B orc
                 (notifyProgress \<lparr>currentPhase = ap_name (rest ! k), completedPhases = map phase_type cp',
                                  totalPhases = length AGENT_PHASES, progress_error = None\<rparr> wk)
                 (rest ! k) cp' = (w2, Inl e)"
      "w' = update_project_status Draft (projectId orc)
              (notifyProgress \<lparr>currentPhase = ap_name (rest ! k), completedPhases = map phase_type cp',
                               totalPhases = length AGENT_PHASES, progress_error = Some e\<rparr> w2)"
      by blast
    have a: "firstPass B orc w (take (Suc k) (phase # rest)) cp = (wk, cp', None)"
      using r Inr k(2) by simp
    have b: "runPhase B orc
                 (notifyProgress \<lparr>currentPhase = ap_name ((phase # rest) ! Suc k), completedPhases = map phase_type cp',
                                  totalPhases = length AGENT_PHASES, progress_error = None\<rparr> wk)
                 ((phase # rest) ! Suc k) cp' = (w2, Inl e)"
      using k(3) by simp
    have c: "w' = update_project_status Draft (projectId orc)
              (notifyProgress \<lparr>currentPhase = ap_name ((phase # rest) ! Suc k), completedPhases = map phase_type cp',
                               totalPhases = length AGENT_PHASES, progress_error = Some e\<rparr> w2)"
      using k(4) by simp
    have "Suc k < length (phase # rest)" using k(1) by simp
    with a b c show ?thesis by blast
  qed
qed

lemma firstPass_prefix_runs:
  assumes "firstPass B orc w phases cp = (w', cp', None)"
  shows "invocations (trace w') = invocations (trace w) @ map (\<lambda>p. Some (ap_type p)) phases"
    and "map phase_type cp' = map phase_type cp @ map ap_type phases"
    and "same_scripts w w'"
proof -
  have "invocations (trace w') = invocations (trace w) @ map (\<lambda>p. Some (ap_type p)) phases
        \<and> map phase_type cp' = map phase_type cp @ map ap_type phases \<and> same_scripts w w'"
    using assms
  proof (induction phases arbitrary: w cp)
    case Nil
    then show ?case by simp
  next
    case (Cons phase rest)
    let ?w = "notifyProgress \<lparr>currentPhase = ap_name phase, completedPhases = map phase_type cp,
                              totalPhases = length AGENT_PHASES, progress_error = None\<rparr> w"
    obtain w1 r where r: "runPhase B orc ?w phase cp = (w1, r)"
      by (cases "runPhase B orc ?w phase cp")
    with Cons.prems obtain result where res: "r = Inr result"
      and rest: "firstPass B orc w1 rest (cp @ [result]) = (w', cp', None)"
      by (cases r) auto
    have tr: "invocations (trace w1) = invocations (trace w) @ [Some (ap_type phase)]"
      using runPhase_world(1) [of B orc ?w phase cp] r by simp
    have ss: "same_scripts w w1"
      using runPhase_world(2) [of ?w B orc phase cp] r
      by (auto intro: same_scripts_trans [of w ?w w1])
    have ty: "phase_type result = ap_type phase"
      using r res runPhase_returns(2) by blast
    from Cons.IH [OF rest] tr ty same_scripts_trans [OF ss] show ?case by simp
  qed
  then show "invocations (trace w') = invocations (trace w) @ map (\<lambda>p. Some (ap_type p)) phases"
    and "map phase_type cp' = map phase_type cp @ map ap_type phases"
    and "same_scripts w w'" by simp_all
qed

lemma runPhase_validation_failed_fetch:
  assumes "runPhase B orc w phase prev = (w', Inl (ValidationFailed errs))"
  shows "0 < n_fetch w'
         \<and> (\<exists>c m out. fetch_script w (n_fetch w' - 1) = FetchOk c m
               \<and> parseJSONResponse (JSON_parse B) c = Inr out
               \<and> \<not> valid (validateJSON B (ap_type phase) out)
               \<and> errs = errors (validateJSON B (ap_type phase) out))
         \<and> (\<exists>es. trace w' = es @ [EFetch])"
proof -
  from runPhase_validation_failed [OF assms] obtain wa wb response out where
    c: "callAI wa \<lparr>msg_stage = ap_type phase, msg_prompt = ContextualPrompt (extractDecisionLedger prev)\<rparr>
             (provider orc) generate_options = (wb, Inr response)"
    and p: "parseJSONResponse (JSON_parse B) (content response) = Inr out"
    and v: "\<not> valid (validateJSON B (ap_type phase) out)"
    and e: "errs = errors (validateJSON B (ap_type phase) out)"
    and w': "w' = fail_phase (fresh_id (planning_phases w)) wb"
    by blast
  have ss: "same_scripts w w'"
    using runPhase_world(2) [of w B orc phase prev] assms by simp
  have fs: "fetch_script wa = fetch_script w"
    using callAI_response(2) [OF c] ss unfolding w' by (simp add: same_scripts_def)
  from callAI_response [OF c] fs p v e show ?thesis
    unfolding w' by auto
qed

text \<open>
  Claim C1, amended. When a stage of the first pass throws, as it does when it has used
  up its attempts, the run ends with that error: the stages before it have returned,
  the stages invoked are the pipeline up to the failing stage and none after it, and
  the world is the one the failing stage run left, after the progress notification of
  the error and the write of the status. An error of failed validation carries the
  error list of the output read from the last response that the backend gave in the
  run, which failed validation against the schema of the failing stage; after that
  response nothing happens but the notification. The status of the project, if the
  store performs the write, is \<open>draft\<close>.
\<close>

theorem first_pass_abort:
  assumes sel: "select_project w (projectId orc) = (w0, Inr (Some project))"
    and fp: "firstPass B orc (update_project_status Planning (projectId orc) w0) AGENT_PHASES [] =
               (w', completed, Some e)"
  shows "runAllPhases B orc gp w = (w', Some e)
     \<and> (\<exists>k<length AGENT_PHASES.
          invocations (trace w') = invocations (trace w) @ map (\<lambda>p. Some (ap_type p)) (take (Suc k) AGENT_PHASES)
          \<and> map phase_type completed = map ap_type (take k AGENT_PHASES)
          \<and> (\<exists>wk w2.
                firstPass B orc (update_project_status Planning (projectId orc) w0) (take k AGENT_PHASES) [] =
                  (wk, completed, None)
                \<and> runPhase B orc
                     (notifyProgress \<lparr>currentPhase = ap_name (AGENT_PHASES ! k),
                                      completedPhases = map phase_type completed,
                                      totalPhases = length AGENT_PHASES, progress_error = None\<rparr> wk)
                     (AGENT_PHASES ! k) completed = (w2, Inl e)
                \<and> w' = update_project_status Draft (projectId orc)
                         (notifyProgress \<lparr>currentPhase = ap_name (AGENT_PHASES ! k),
                                          completedPhases = map phase_type completed,
                                          totalPhases = length AGENT_PHASES, progress_error = Some e\<rparr> w2))
          \<and> (\<forall>errs. e = ValidationFailed errs \<longrightarrow>
                0 < n_fetch w'
                \<and> (\<exists>c m out. fetch_script w (n_fetch w' - 1) = FetchOk c m
                      \<and> parseJSONResponse (JSON_parse B) c = Inr out
                      \<and> \<not> valid (validateJSON B (ap_type (AGENT_PHASES ! k)) out)
                      \<and> errs = errors (validateJSON B (ap_type (AGENT_PHASES ! k)) out))
                \<and> (\<exists>es. trace w' = es @
                      [EFetch,
                       EProgress \<lparr>currentPhase = ap_name (AGENT_PHASES ! k),
                                  completedPhases = map phase_type completed,
                                  totalPhases = length AGENT_PHASES, progress_error = Some e\<rparr>])))
     \<and> (store_script w' (n_store w' - 1) \<longrightarrow>
          (\<exists>p. project_row w' = Some p \<and> proj_id p = projectId orc \<and> proj_status p = Draft))"
proof -
  let ?pid = "projectId orc"
  let ?w1 = "update_project_status Planning ?pid w0"
  have run: "runAllPhases B orc gp w = (w', Some e)"
    using sel fp by (simp add: runAllPhases_def)
  from firstPass_abort_split [OF fp] obtain k wk w2 where k: "k < length AGENT_PHASES"
    and pre: "firstPass B orc ?w1 (take k AGENT_PHASES) [] = (wk, completed, None)"
    and rp: "runPhase B orc
                 (notifyProgress \<lparr>currentPhase = ap_name (AGENT_PHASES ! k),
                                  completedPhases = map phase_type completed,
                                  totalPhases = length AGENT_PHASES, progress_error = None\<rparr> wk)
                 (AGENT_PHASES ! k) completed = (w2, Inl e)"
    and w': "w' = update_project_status Draft ?pid
                    (notifyProgress \<lparr>currentPhase = ap_name (AGENT_PHASES ! k),
                                     completedPhases = map phase_type completed,
                                     totalPhases = length AGENT_PHASES, progress_error = Some e\<rparr> w2)"
    by blast
  let ?wk = "notifyProgress \<lparr>currentPhase = ap_name (AGENT_PHASES ! k),
                                  completedPhases = map phase_type completed,
                                  totalPhases = length AGENT_PHASES, progress_error = None\<rparr> wk"
  have w0: "w0 = fst (select_project w ?pid)" using sel by simp
  have t0: "trace ?w1 = trace w" "fetch_script ?w1 = fetch_script w"
    unfolding w0 by simp_all
  have ss1: "same_scripts ?w1 wk" by (rule firstPass_prefix_runs(3) [OF pre])
  have ss2: "same_scripts ?wk w2"
    using runPhase_world(2) [of ?wk B orc "AGENT_PHASES ! k" completed] rp by simp
  have fsk: "fetch_script ?wk = fetch_script w"
    using ss1 t0(2) by (simp add: same_scripts_def)
  have inv: "invocations (trace w') =
               invocations (trace w) @ map (\<lambda>p. Some (ap_type p)) (take (Suc k) AGENT_PHASES)"
  proof -
    have "invocations (trace w2) = invocations (trace ?wk) @ [Some (ap_type (AGENT_PHASES ! k))]"
      using runPhase_world(1) [of B orc ?wk "AGENT_PHASES ! k" completed] rp by simp
    then show ?thesis
      unfolding w' using firstPass_prefix_runs(1) [OF pre] t0(1) k
      by (simp add: take_Suc_conv_app_nth)
  qed
  have types: "map phase_type completed = map ap_type (take k AGENT_PHASES)"
    using firstPass_prefix_runs(2) [OF pre] by simp
  have err: "0 < n_fetch w'
                \<and> (\<exists>c m out. fetch_script w (n_fetch w' - 1) = FetchOk c m
                      \<and> parseJSONResponse (JSON_parse B) c = Inr out
                      \<and> \<not> valid (validateJSON B (ap_type (AGENT_PHASES ! k)) out)
                      \<and> errs = errors (validateJSON B (ap_type (AGENT_PHASES ! k)) out))
                \<and> (\<exists>es. trace w' = es @
                      [EFetch,
                       EProgress \<lparr>currentPhase = ap_name (AGENT_PHASES ! k),
                                  completedPhases = map phase_type completed,
                                  totalPhases = length AGENT_PHASES, progress_error = Some e\<rparr>])"
    if e: "e = ValidationFailed errs" for errs
    using runPhase_validation_failed_fetch [OF rp [unfolded e]] fsk
    unfolding w' by auto
  have row: "\<exists>p. project_row w' = Some p \<and> proj_id p = ?pid \<and> proj_status p = Draft"
    if s: "store_script w' (n_store w' - 1)"
  proof -
    from select_project_found [OF sel] update_project_status_row [of w0 project ?pid Planning]
    obtain q where q: "project_row ?w1 = Some q" "proj_id q = ?pid" by blast
    let ?w2 = "notifyProgress \<lparr>currentPhase = ap_name (AGENT_PHASES ! k),
                                     completedPhases = map phase_type completed,
                                     totalPhases = length AGENT_PHASES, progress_error = Some e\<rparr> w2"
    from ss1 ss2 q have "project_row ?w2 = Some q" by (simp add: same_scripts_def)
    from update_project_status_row [OF this q(2), of Draft] s show ?thesis
      unfolding w' by simp
  qed
  from run k inv types pre rp w' err row show ?thesis by blast
qed

text \<open>
  The example: the run above, in which the competitor stage fails.
\<close>

theorem first_pass_abort_witness:
  "snd (runAllPhases ref_builtins ex_orchestrator no_prompts ex_world_invalid) =
       Some (ValidationFailed [js ''/ must have required property''])
   \<and> invocations (trace (fst (runAllPhases ref_builtins ex_orchestrator no_prompts ex_world_invalid))) =
       [Some (js ''competitor'')]
   \<and> 0 < n_fetch (fst (runAllPhases ref_builtins ex_orchestrator no_prompts ex_world_invalid))
   \<and> (\<exists>out. parseJSONResponse JSON_parse_ref (js ''{}'') = Inr out
          \<and> [js ''/ must have required property''] = errors (validateJSON ref_builtins (js ''competitor'') out))
   \<and> (\<exists>p. project_row (fst (runAllPhases ref_builtins ex_orchestrator no_prompts ex_world_invalid)) = Some p
          \<and> proj_status p = Draft)"
proof -
  let ?w' = "fst (firstPass ref_builtins ex_orchestrator
          (update_project_status Planning (projectId ex_orchestrator) (ex_world_invalid\<lparr>n_store := Suc 0\<rparr>))
          AGENT_PHASES [])"
  have s: "store_script ?w' = (\<lambda>n. True)"
    using firstPass_abort_status(1) [OF ex_invalid_first_pass_eq ex_invalid_planning(4)]
    by (simp add: ex_orchestrator_fields ex_invalid_planning(3))
  have k0: "k = 0" if "k < length AGENT_PHASES" "map phase_type ([] :: PlanningPhase list) = map ap_type (take k AGENT_PHASES)" for k
    using that by (cases k) (simp_all add: AGENT_PHASES_def)
  have a0: "AGENT_PHASES ! 0 = \<lparr>ap_type = js ''competitor'', ap_name = js ''Research Analyst''\<rparr>"
    "take (Suc 0) AGENT_PHASES = [\<lparr>ap_type = js ''competitor'', ap_name = js ''Research Analyst''\<rparr>]"
    by (simp_all add: AGENT_PHASES_def)
  from first_pass_abort [OF ex_invalid_select ex_invalid_first_pass_eq, of no_prompts]
  obtain k where k: "k < length AGENT_PHASES"
    "invocations (trace ?w') = invocations (trace ex_world_invalid)
        @ map (\<lambda>p. Some (ap_type p)) (take (Suc k) AGENT_PHASES)"
    "map phase_type ([] :: PlanningPhase list) = map ap_type (take k AGENT_PHASES)"
    "0 < n_fetch ?w'"
    "\<exists>c m out. fetch_script ex_world_invalid (n_fetch ?w' - 1) = FetchOk c m
                      \<and> parseJSONResponse (JSON_parse ref_builtins) c = Inr out
                      \<and> \<not> valid (validateJSON ref_builtins (ap_type (AGENT_PHASES ! k)) out)
                      \<and> [js ''/ must have required property''] = errors (validateJSON ref_builtins (ap_type (AGENT_PHASES ! k)) out)"
    and row: "store_script ?w' (n_store ?w' - 1) \<longrightarrow>
          (\<exists>p. project_row ?w' = Some p \<and> proj_id p = projectId ex_orchestrator \<and> proj_status p = Draft)"
    by blast
  from k0 [OF k(1) k(3)] have z: "k = 0" .
  from k(5) obtain out where
    "parseJSONResponse JSON_parse_ref (js ''{}'') = Inr out"
    "[js ''/ must have required property''] = errors (validateJSON ref_builtins (js ''competitor'') out)"
    unfolding z a0 by (auto simp: ex_invalid_reply_def ref_builtins_def)
  with k(2,4) row s show ?thesis
    unfolding z a0 by (simp add: ex_invalid_run) blast
qed


subsection \<open>One cycle in a run\<close>

lemma stage_runs_append [simp]: "stage_runs (xs @ ys) = stage_runs xs @ stage_runs ys"
  by (induction xs rule: stage_runs.induct) auto


lemma stage_runs_same:
  "invocations es = invocations es' \<Longrightarrow> stage_runs es = stage_runs es'"
proof -
  have "stage_runs xs = concat (map (case_option [] (\<lambda>ty. [ty])) (invocations xs))" for xs
    by (induction xs rule: stage_runs.induct) auto
  then show "invocations es = invocations es' \<Longrightarrow> stage_runs es = stage_runs es'"
    by simp
qed











lemma notifyProgress_runs [simp]: "stage_runs (trace (notifyProgress p w)) = stage_runs (trace w)"
  by (simp add: notifyProgress_def log_event_def)

lemma ex_world_full_fields [simp]:
  "env_ok ex_world_full" "fetch_script ex_world_full = ex_reply" "n_fetch ex_world_full = 0"
  "store_script ex_world_full = (\<lambda>n. True)" "n_store ex_world_full = 0"
  "planning_phases ex_world_full = []" "trace ex_world_full = []"
  "project_row ex_world_full = Some \<lparr>proj_id = js ''p1'', proj_status = Draft\<rparr>"
  by (simp_all add: ex_world_full_def world_with_def)














lemma decisions_none:
  assumes "list_all (\<lambda>r. ph_output r = ex_out) cp"
  shows "concat (map decisions_of cp) = []"
  using assms by (induction cp) (simp_all add: decisions_of_def ex_out_def dyn_eval js_eq_iff)















end
